theory Spec2Isabelle
  imports Complex_Main "HOL-Library.Char_ord" "HOL-Library.List_Lexorder" "HOL-Library.Multiset"
    "HOL-Library.Sublist"
begin

section \<open>Skill strings\<close>

text \<open>
  A JavaScript string is a sequence of UTF-16 code units.  The model keeps the code units
  below 256 (ASCII and the Latin-1 supplement), one \<open>char\<close> each; \<open>of_char\<close> reads the unit.
\<close>

definition is_space :: "char \<Rightarrow> bool" where
  \<comment> \<open>the regular expression class \<open>\s\<close>, also what \<open>trim\<close> strips: TAB, LF, VT, FF, CR, SP, NBSP\<close>
  "is_space c = (let n = (of_char c :: nat) in (9 \<le> n \<and> n \<le> 13) \<or> n = 32 \<or> n = 160)"

definition is_lower_alnum :: "char \<Rightarrow> bool" where
  \<comment> \<open>the class \<open>[a-z0-9]\<close>\<close>
  "is_lower_alnum c = (let n = (of_char c :: nat) in (97 \<le> n \<and> n \<le> 122) \<or> (48 \<le> n \<and> n \<le> 57))"

definition lower_char :: "char \<Rightarrow> char" where
  \<comment> \<open>\<open>toLowerCase\<close> on one unit: A-Z, and the Latin-1 capitals except the multiplication sign\<close>
  "lower_char c = (let n = (of_char c :: nat) in
     if (65 \<le> n \<and> n \<le> 90) \<or> (192 \<le> n \<and> n \<le> 222 \<and> n \<noteq> 215) then char_of (n + 32) else c)"

definition toLowerCase :: "string \<Rightarrow> string" where
  "toLowerCase s = map lower_char s"

definition strip_other :: "string \<Rightarrow> string" where
  \<comment> \<open>\<open>.replace(/[^a-z0-9\s]/g, '')\<close>\<close>
  "strip_other s = filter (\<lambda>c. is_lower_alnum c \<or> is_space c) s"

function collapse_ws :: "string \<Rightarrow> string" where
  \<comment> \<open>\<open>.replace(/\s+/g, ' ')\<close>: every maximal run of white space becomes one SP\<close>
  "collapse_ws [] = []"
| "collapse_ws (c # cs) =
     (if is_space c then CHR '' '' # collapse_ws (dropWhile is_space cs)
      else c # collapse_ws cs)"
  by pat_completeness auto
termination
  by (relation "measure length") (auto simp: less_Suc_eq_le length_dropWhile_le)

definition trim :: "string \<Rightarrow> string" where
  "trim s = rev (dropWhile is_space (rev (dropWhile is_space s)))"

definition normaliseSkill :: "string \<Rightarrow> string" where
  "normaliseSkill skill = trim (collapse_ws (strip_other (toLowerCase skill)))"


section \<open>Numbers\<close>

text \<open>
  A JavaScript \<open>number\<close> is an IEEE 754 binary64 value: a real, an infinity or \<open>NaN\<close>.
  Every arithmetic operator returns the exact result rounded to the nearest representable
  value, ties to even; a result beyond the largest value becomes an infinity and a result
  below the least normal value is rounded to a multiple of \<open>2^-1074\<close>.  The two zeros are one
  value \<open>Num 0\<close>: the sign of a zero shows only in a division by zero, and the one division of
  the program is guarded by \<open>denom === 0\<close>.  \<open>Math.sqrt\<close> is the correctly rounded square
  root.
\<close>

datatype number = Num real | PInf | NInf | NaN

definition rne :: "real \<Rightarrow> int" where
  \<comment> \<open>the nearest integer, ties to even\<close>
  "rne y = (let f = \<lfloor>y\<rfloor>; d = y - of_int f in
     if d < 1/2 then f else if 1/2 < d then f + 1 else if even f then f else f + 1)"

definition round_to :: "nat \<Rightarrow> real \<Rightarrow> real" where
  \<comment> \<open>the nearest binary floating-point value with \<open>p\<close> significant bits, the exponent unbounded\<close>
  "round_to p x = (if x = 0 then 0 else
     let e = \<lfloor>log 2 \<bar>x\<bar>\<rfloor> - int p + 1 in of_int (rne (x / 2 powr of_int e)) * 2 powr of_int e)"

definition fl :: "real \<Rightarrow> real" where
  \<comment> \<open>the nearest binary64 value of a real in the normal range: the value of a decimal literal\<close>
  "fl x = round_to 53 x"

definition f64 :: "real \<Rightarrow> number" where
  \<comment> \<open>rounding to binary64: below \<open>2^-1022\<close> to a multiple of \<open>2^-1074\<close>, from \<open>2^1024\<close> on to an infinity\<close>
  "f64 x = (let y = (if \<bar>x\<bar> < 1 / 2 ^ 1022 then of_int (rne (x * 2 ^ 1074)) / 2 ^ 1074 else round_to 53 x)
     in if 2 ^ 1024 \<le> \<bar>y\<bar> then (if 0 < x then PInf else NInf) else Num y)"

definition f32 :: "real \<Rightarrow> number" where
  \<comment> \<open>rounding to binary32: below \<open>2^-126\<close> to a multiple of \<open>2^-149\<close>, from \<open>2^128\<close> on to an infinity\<close>
  "f32 x = (let y = (if \<bar>x\<bar> < 1 / 2 ^ 126 then of_int (rne (x * 2 ^ 149)) / 2 ^ 149 else round_to 24 x)
     in if 2 ^ 128 \<le> \<bar>y\<bar> then (if 0 < x then PInf else NInf) else Num y)"

fun toFloat32 :: "number \<Rightarrow> number" where
  \<comment> \<open>what a \<open>Float32Array\<close> keeps of a number stored into it\<close>
  "toFloat32 (Num x) = f32 x"
| "toFloat32 PInf = PInf"
| "toFloat32 NInf = NInf"
| "toFloat32 NaN = NaN"

fun num_add :: "number \<Rightarrow> number \<Rightarrow> number" where
  "num_add (Num x) (Num y) = f64 (x + y)"
| "num_add (Num x) PInf = PInf"
| "num_add (Num x) NInf = NInf"
| "num_add PInf (Num y) = PInf"
| "num_add NInf (Num y) = NInf"
| "num_add PInf PInf = PInf"
| "num_add NInf NInf = NInf"
| "num_add PInf NInf = NaN"
| "num_add NInf PInf = NaN"
| "num_add NaN b = NaN"
| "num_add a NaN = NaN"

fun num_sub :: "number \<Rightarrow> number \<Rightarrow> number" where
  "num_sub (Num x) (Num y) = f64 (x - y)"
| "num_sub (Num x) PInf = NInf"
| "num_sub (Num x) NInf = PInf"
| "num_sub PInf (Num y) = PInf"
| "num_sub NInf (Num y) = NInf"
| "num_sub PInf NInf = PInf"
| "num_sub NInf PInf = NInf"
| "num_sub PInf PInf = NaN"
| "num_sub NInf NInf = NaN"
| "num_sub NaN b = NaN"
| "num_sub a NaN = NaN"

fun num_mul :: "number \<Rightarrow> number \<Rightarrow> number" where
  "num_mul (Num x) (Num y) = f64 (x * y)"
| "num_mul (Num x) PInf = (if x = 0 then NaN else if 0 < x then PInf else NInf)"
| "num_mul (Num x) NInf = (if x = 0 then NaN else if 0 < x then NInf else PInf)"
| "num_mul PInf (Num y) = (if y = 0 then NaN else if 0 < y then PInf else NInf)"
| "num_mul NInf (Num y) = (if y = 0 then NaN else if 0 < y then NInf else PInf)"
| "num_mul PInf PInf = PInf"
| "num_mul NInf NInf = PInf"
| "num_mul PInf NInf = NInf"
| "num_mul NInf PInf = NInf"
| "num_mul NaN b = NaN"
| "num_mul a NaN = NaN"

fun num_div :: "number \<Rightarrow> number \<Rightarrow> number" where
  \<comment> \<open>a zero divisor is taken as \<open>+0\<close>\<close>
  "num_div (Num x) (Num y) =
     (if y = 0 then (if x = 0 then NaN else if 0 < x then PInf else NInf) else f64 (x / y))"
| "num_div (Num x) PInf = Num 0"
| "num_div (Num x) NInf = Num 0"
| "num_div PInf (Num y) = (if 0 \<le> y then PInf else NInf)"
| "num_div NInf (Num y) = (if 0 \<le> y then NInf else PInf)"
| "num_div PInf PInf = NaN"
| "num_div NInf NInf = NaN"
| "num_div PInf NInf = NaN"
| "num_div NInf PInf = NaN"
| "num_div NaN b = NaN"
| "num_div a NaN = NaN"

fun num_sqrt :: "number \<Rightarrow> number" where
  "num_sqrt (Num x) = (if x < 0 then NaN else f64 (sqrt x))"
| "num_sqrt PInf = PInf"
| "num_sqrt NInf = NaN"
| "num_sqrt NaN = NaN"

fun num_less :: "number \<Rightarrow> number \<Rightarrow> bool" where
  \<comment> \<open>\<open>a < b\<close>; false when one of them is \<open>NaN\<close>\<close>
  "num_less (Num x) (Num y) = (x < y)"
| "num_less (Num x) PInf = True"
| "num_less NInf (Num y) = True"
| "num_less NInf PInf = True"
| "num_less a b = False"

definition num_ge :: "number \<Rightarrow> number \<Rightarrow> bool" where
  \<comment> \<open>\<open>a >= b\<close>; false when one of them is \<open>NaN\<close>\<close>
  "num_ge a b = (a \<noteq> NaN \<and> b \<noteq> NaN \<and> \<not> num_less a b)"

definition num_min :: "number \<Rightarrow> number \<Rightarrow> number" where
  \<comment> \<open>\<open>Math.min(a, b)\<close>\<close>
  "num_min a b = (if a = NaN \<or> b = NaN then NaN else if num_less a b then a else b)"

fun truthy :: "number \<Rightarrow> bool" where
  \<comment> \<open>the left operand of \<open>||\<close> is kept unless it is zero or \<open>NaN\<close>\<close>
  "truthy (Num x) = (x \<noteq> 0)"
| "truthy NaN = False"
| "truthy a = True"

fun positive :: "number \<Rightarrow> bool" where
  "positive (Num x) = (0 < x)"
| "positive PInf = True"
| "positive a = False"

definition toFixed4 :: "real \<Rightarrow> real" where
  \<comment> \<open>\<open>parseFloat(x.toFixed(4))\<close>: the nearest multiple of \<open>10^-4\<close> to the exact value of \<open>x\<close>
      (ties away from zero), printed, and read back as the nearest binary64 value; from
      \<open>10^21\<close> on \<open>toFixed\<close> prints the number itself\<close>
  "toFixed4 x = (if 10 ^ 21 \<le> \<bar>x\<bar> then x else
     let n = \<lfloor>\<bar>x\<bar> * 10 ^ 4 + 1/2\<rfloor>; y = fl (of_int n / 10 ^ 4)
     in if x < 0 then - y else y)"

fun round4 :: "number \<Rightarrow> number" where
  "round4 (Num x) = Num (toFixed4 x)"
| "round4 PInf = PInf"
| "round4 NInf = NInf"
| "round4 NaN = NaN"

section \<open>Vectorizer\<close>

text \<open>
  A \<open>Map\<close> keeps its entries in insertion order: an association list with distinct keys.
  \<open>set\<close> on a present key replaces the value in place, on a new key it appends.
\<close>

definition map_has :: "('k \<times> 'v) list \<Rightarrow> 'k \<Rightarrow> bool" where
  "map_has m k = (map_of m k \<noteq> None)"

definition map_set :: "('k \<times> 'v) list \<Rightarrow> 'k \<Rightarrow> 'v \<Rightarrow> ('k \<times> 'v) list" where
  "map_set m k v = (if map_has m k then map (\<lambda>(k', v'). if k' = k then (k', v) else (k', v')) m
     else m @ [(k, v)])"

type_synonym Vocabulary = "(string \<times> nat) list"

definition vocab_step :: "string \<Rightarrow> Vocabulary \<times> nat \<Rightarrow> Vocabulary \<times> nat" where
  \<comment> \<open>the body of the inner loop of \<open>buildVocabulary\<close>; the empty string is falsy\<close>
  "vocab_step skill = (\<lambda>(vocab, idx).
     let norm = normaliseSkill skill in
     if norm \<noteq> [] \<and> \<not> map_has vocab norm then (map_set vocab norm idx, idx + 1)
     else (vocab, idx))"

definition buildVocabulary :: "string list list \<Rightarrow> Vocabulary" where
  "buildVocabulary allSkillSets =
     fst (fold (\<lambda>skills st. fold vocab_step skills st) allSkillSets ([], 0))"

text \<open>
  A \<open>Float32Array\<close> is the list of its elements, each a number that binary32 holds.
\<close>

definition encode_step :: "Vocabulary \<Rightarrow> string \<Rightarrow> number list \<Rightarrow> number list" where
  \<comment> \<open>a write past the end of a typed array is ignored, as \<open>list_update\<close> does\<close>
  "encode_step vocab skill vec =
     (case map_of vocab (normaliseSkill skill) of None \<Rightarrow> vec | Some idx \<Rightarrow> vec[idx := Num 1])"

definition encodeVector :: "string list \<Rightarrow> Vocabulary \<Rightarrow> number list" where
  "encodeVector skills vocab = fold (encode_step vocab) skills (replicate (length vocab) (Num 0))"

section \<open>Similarity ranker\<close>

definition cos_step :: "number \<times> number \<Rightarrow> number \<times> number \<times> number \<Rightarrow> number \<times> number \<times> number" where
  \<comment> \<open>one iteration: \<open>dot += a[i] * b[i]; normA += a[i] * a[i]; normB += b[i] * b[i]\<close>\<close>
  "cos_step = (\<lambda>(x, y) (dot, normA, normB).
     (num_add dot (num_mul x y), num_add normA (num_mul x x), num_add normB (num_mul y y)))"

definition cosineSimilarity :: "number list \<Rightarrow> number list \<Rightarrow> number" where
  \<comment> \<open>the loop runs over the indices of \<open>a\<close>; where \<open>b\<close> is shorter, \<open>b[i]\<close> is \<open>undefined\<close>,
      which the arithmetic reads as \<open>NaN\<close>\<close>
  "cosineSimilarity a b =
     (case fold cos_step (zip a (b @ replicate (length a - length b) NaN)) (Num 0, Num 0, Num 0) of
        (dot, normA, normB) \<Rightarrow>
          let denom = num_mul (num_sqrt normA) (num_sqrt normB)
          in if denom = Num 0 then Num 0 else num_div dot denom)"

datatype availability = Available | Busy | PartTime

record UserSkillProfile =
  userId :: string
  name :: string
  email :: string
  bio :: string
  skills :: "string list"
  availability :: availability

record ScoredMatch = UserSkillProfile +
  matchedSkills :: "string list"
  cosineSimilarityOf :: number
  matchScore :: nat
  totalSkills :: nat

definition scoreUser :: "number list \<Rightarrow> Vocabulary \<Rightarrow> string list \<Rightarrow> UserSkillProfile \<Rightarrow> ScoredMatch" where
  \<comment> \<open>the callback of \<open>users.map\<close> in \<open>rankUsersBySkills\<close>\<close>
  "scoreUser queryVec vocab normalisedQuery user =
     (let userVec = encodeVector (skills user) vocab;
          score = cosineSimilarity queryVec userVec;
          normUserSkills = map normaliseSkill (skills user);
          matched = filter (\<lambda>s. normaliseSkill s \<in> set normalisedQuery) (skills user)
      in \<lparr>userId = userId user, name = name user, email = email user, bio = bio user,
          skills = skills user, availability = availability user,
          matchedSkills = matched, cosineSimilarityOf = round4 score,
          matchScore = length matched, totalSkills = length normUserSkills\<rparr>)"

definition compareMatches :: "ScoredMatch \<Rightarrow> ScoredMatch \<Rightarrow> number" where
  \<comment> \<open>\<open>b.cosineSimilarity - a.cosineSimilarity || b.matchScore - a.matchScore ||
      b.totalSkills - a.totalSkills\<close>\<close>
  "compareMatches a b =
     (let d = num_sub (cosineSimilarityOf b) (cosineSimilarityOf a) in
      if truthy d then d
      else let d2 = int (matchScore b) - int (matchScore a) in
        if d2 \<noteq> 0 then Num (of_int d2)
        else Num (of_int (int (totalSkills b) - int (totalSkills a))))"

text \<open>
  \<open>Array.prototype.sort\<close> is stable, puts \<open>b\<close> before \<open>a\<close> only where the comparator is
  positive on \<open>(a, b)\<close>, and reads a \<open>NaN\<close> comparison as zero.  For a consistent comparator
  the result is the one of a stable insertion sort.  Both rankers sort what their filter
  kept, where no similarity is \<open>NaN\<close> and both comparators are consistent.
\<close>

fun insert_cmp :: "('a \<Rightarrow> 'a \<Rightarrow> number) \<Rightarrow> 'a \<Rightarrow> 'a list \<Rightarrow> 'a list" where
  "insert_cmp cmp x [] = [x]"
| "insert_cmp cmp x (y # ys) =
     (if positive (cmp x y) then y # insert_cmp cmp x ys else x # y # ys)"

definition sort_cmp :: "('a \<Rightarrow> 'a \<Rightarrow> number) \<Rightarrow> 'a list \<Rightarrow> 'a list" where
  "sort_cmp cmp xs = foldr (insert_cmp cmp) xs []"

definition slice_end :: "number \<Rightarrow> nat \<Rightarrow> nat" where
  \<comment> \<open>the index where \<open>.slice(0, n)\<close> stops in an array of \<open>len\<close> elements: \<open>n\<close> is truncated
      to an integer (\<open>NaN\<close> to 0), and a negative end counts from the end of the array\<close>
  "slice_end n len = (case n of
       NaN \<Rightarrow> 0 | PInf \<Rightarrow> len | NInf \<Rightarrow> 0
     | Num x \<Rightarrow> (let k = (if 0 \<le> x then \<lfloor>x\<rfloor> else \<lceil>x\<rceil>)
                 in if k < 0 then nat (int len + k) else min (nat k) len))"

definition slice0 :: "number \<Rightarrow> 'a list \<Rightarrow> 'a list" where
  \<comment> \<open>\<open>.slice(0, n)\<close>\<close>
  "slice0 n xs = take (slice_end n (length xs)) xs"

definition scoredUsers :: "string list \<Rightarrow> UserSkillProfile list \<Rightarrow> ScoredMatch list" where
  \<comment> \<open>the array \<open>scored\<close> of \<open>rankUsersBySkills\<close>\<close>
  "scoredUsers querySkills users =
     (let allSkillSets = querySkills # map skills users;
          vocab = buildVocabulary allSkillSets;
          queryVec = encodeVector querySkills vocab;
          normalisedQuery = map normaliseSkill querySkills
      in map (scoreUser queryVec vocab normalisedQuery) users)"

definition rankUsersBySkills ::
  "string list \<Rightarrow> UserSkillProfile list \<Rightarrow> number \<Rightarrow> number \<Rightarrow> ScoredMatch list" where
  "rankUsersBySkills querySkills users topN minScore =
     (if querySkills = [] \<or> users = [] then []
      else slice0 topN
             (sort_cmp compareMatches
               (filter (\<lambda>m. num_ge (cosineSimilarityOf m) minScore)
                 (scoredUsers querySkills users))))"


section \<open>JSON values and errors\<close>

text \<open>
  A value read from JSON text; the arguments of a tool call that the language model
  requests are such values.  Every \<open>throw\<close> of the source is a value of \<open>error\<close>.
\<close>

datatype json = JNull | JBool bool | JNum number | JStr string | JArr "json list" | JObj "(string \<times> json) list"

datatype error =
    InputError string
  | SenderNotFound string
  | RecipientNotFound string
  | GuardViolation "json option"  \<comment> \<open>with the \<open>to_user_id\<close> that was asked for\<close>
  | UnknownTool string
  | CapExceeded
  | UpstreamError string
  | TypeError string

fun truthy_json :: "json \<Rightarrow> bool" where
  \<comment> \<open>a value in a condition\<close>
  "truthy_json JNull = False"
| "truthy_json (JBool b) = b"
| "truthy_json (JNum n) = truthy n"
| "truthy_json (JStr s) = (s \<noteq> [])"
| "truthy_json (JArr vs) = True"
| "truthy_json (JObj kvs) = True"

definition truthy_opt :: "json option \<Rightarrow> bool" where
  \<comment> \<open>an optional value in a condition: \<open>undefined\<close> is falsy\<close>
  "truthy_opt v = (case v of None \<Rightarrow> False | Some j \<Rightarrow> truthy_json j)"

section \<open>Embedding matcher\<close>

type_synonym EmbeddingVector = "number list"

type_synonym EmbeddingCache = "(string \<times> EmbeddingVector) list"

definition MAX_CACHE_SIZE :: nat where
  "MAX_CACHE_SIZE = 5000"

record embed_state =
  embeddingCache :: EmbeddingCache
  requests :: "string list"  \<comment> \<open>the texts sent to the embedding provider, in order\<close>

fun join :: "string \<Rightarrow> string list \<Rightarrow> string" where
  "join sep [] = []"
| "join sep [x] = x"
| "join sep (x # y # ys) = x @ sep @ join sep (y # ys)"

definition getCacheKey :: "string list \<Rightarrow> string" where
  \<comment> \<open>the default \<open>sort\<close> orders strings by their code units\<close>
  "getCacheKey skillList = join ''|'' (sort (map (\<lambda>s. trim (toLowerCase s)) skillList))"

definition generateSkillEmbedding ::
  "(string \<Rightarrow> error + EmbeddingVector) \<Rightarrow> string list \<Rightarrow> embed_state
     \<Rightarrow> (error + EmbeddingVector) \<times> embed_state" where
  \<comment> \<open>\<open>provider\<close> is the call \<open>openai.embeddings.create\<close>: it fails or returns a vector\<close>
  "generateSkillEmbedding provider skillList st =
     (if skillList = [] then (Inr (replicate 1536 (Num 0)), st)
      else
        let cacheKey = getCacheKey skillList in
        case map_of (embeddingCache st) cacheKey of
          Some v \<Rightarrow> (Inr v, st)
        | None \<Rightarrow>
            let text = join '', '' skillList;
                st1 = st\<lparr>requests := requests st @ [text]\<rparr>
            in (case provider text of
                  Inl e \<Rightarrow> (Inl e, st1)
                | Inr vector \<Rightarrow>
                    let c = embeddingCache st1;
                        c1 = (if MAX_CACHE_SIZE \<le> length c then tl c else c)
                    in (Inr vector, st1\<lparr>embeddingCache := map_set c1 cacheKey vector\<rparr>)))"

definition embeddingCosine :: "EmbeddingVector \<Rightarrow> EmbeddingVector \<Rightarrow> number" where
  \<comment> \<open>\<open>new Float32Array(a)\<close> converts every element to binary32\<close>
  "embeddingCosine a b = cosineSimilarity (map toFloat32 a) (map toFloat32 b)"

fun collect :: "(error + 'a) list \<Rightarrow> error + 'a list" where
  \<comment> \<open>\<open>Promise.all\<close>: all the results, or a rejection\<close>
  "collect [] = Inr []"
| "collect (Inl e # rs) = Inl e"
| "collect (Inr v # rs) = (case collect rs of Inl e \<Rightarrow> Inl e | Inr vs \<Rightarrow> Inr (v # vs))"

definition scoreEmbedded :: "string list \<Rightarrow> EmbeddingVector \<Rightarrow> UserSkillProfile \<times> EmbeddingVector \<Rightarrow> ScoredMatch" where
  \<comment> \<open>the callback of \<open>users.map\<close> in \<open>rankUsersWithEmbeddings\<close>, on \<open>(user, userVecs[i])\<close>\<close>
  "scoreEmbedded querySet queryVec = (\<lambda>(user, userVec).
     let score = embeddingCosine queryVec userVec;
         matched = filter (\<lambda>s. trim (toLowerCase s) \<in> set querySet) (skills user)
     in \<lparr>userId = userId user, name = name user, email = email user, bio = bio user,
         skills = skills user, availability = availability user,
         matchedSkills = matched, cosineSimilarityOf = round4 score,
         matchScore = length matched, totalSkills = length (skills user)\<rparr>)"

definition compareCosine :: "ScoredMatch \<Rightarrow> ScoredMatch \<Rightarrow> number" where
  \<comment> \<open>\<open>b.cosineSimilarity - a.cosineSimilarity\<close>\<close>
  "compareCosine a b = num_sub (cosineSimilarityOf b) (cosineSimilarityOf a)"

text \<open>
  \<open>rankUsersWithEmbeddings\<close> starts every call of \<open>generateSkillEmbedding\<close> before it awaits
  any of them: each call tests the cache as it is on entry, in the state \<open>st\<close>.  The cache
  writes happen later, in the order the provider answers; the model gives the vectors and
  the ranking, not the cache afterwards.
\<close>

definition embeddedScored ::
  "(string \<Rightarrow> error + EmbeddingVector) \<Rightarrow> embed_state \<Rightarrow> string list \<Rightarrow> UserSkillProfile list
     \<Rightarrow> error + ScoredMatch list" where
  \<comment> \<open>the array \<open>scored\<close> of \<open>rankUsersWithEmbeddings\<close>\<close>
  "embeddedScored provider st querySkills users =
     (case collect (map (\<lambda>sk. fst (generateSkillEmbedding provider sk st))
                        (querySkills # map skills users)) of
        Inl e \<Rightarrow> Inl e
      | Inr [] \<Rightarrow> Inr []
      | Inr (queryVec # userVecs) \<Rightarrow>
          let querySet = map (\<lambda>s. trim (toLowerCase s)) querySkills
          in Inr (map (scoreEmbedded querySet queryVec) (zip users userVecs)))"

definition rankUsersWithEmbeddings ::
  "(string \<Rightarrow> error + EmbeddingVector) \<Rightarrow> embed_state \<Rightarrow> string list \<Rightarrow> UserSkillProfile list
     \<Rightarrow> number \<Rightarrow> number \<Rightarrow> error + ScoredMatch list" where
  "rankUsersWithEmbeddings provider st querySkills users topN minScore =
     (if querySkills = [] \<or> users = [] then Inr []
      else case embeddedScored provider st querySkills users of
        Inl e \<Rightarrow> Inl e
      | Inr scored \<Rightarrow>
          Inr (slice0 topN
                (sort_cmp compareCosine
                  (filter (\<lambda>m. num_ge (cosineSimilarityOf m) minScore) scored))))"

section \<open>Storage collaborator and tools\<close>

text \<open>
  The storage collaborator is read through three queries.  A lookup of a user by id gives the
  document or nothing (\<open>null\<close>).  The project lookup and the candidate query may get a value of
  another type than their schema has, from the arguments of a tool call that are only cast:
  they give their result or are rejected.  The candidate query gets the filter that
  \<open>matchUsersBySkills\<close> builds and its limit.

  The language converts a value to a number (in \<open>limit * 5\<close> and in \<open>slice\<close>) and to text (in a
  template literal).  What the conversion to a number gives on a string, an array or an
  object, and the conversion to text on a number, an array or an object, is left open, as
  the parameters \<open>toNumber\<close> and \<open>toText\<close>.
\<close>

record UserDoc =
  doc_name :: string
  doc_skills :: "string list"
  doc_bio :: string

record ProjectDoc =
  doc_title :: string
  doc_description :: string

record RawUser =
  raw_id :: string
  raw_name :: string
  raw_email :: string
  raw_bio :: "string option"
  raw_skills :: "string list option"
  raw_availability :: "availability option"

record MongoFilter =
  filter_skills :: "string list"  \<comment> \<open>one case-insensitive pattern for each searched skill\<close>
  filter_exclude :: "string option"
  filter_availability :: "availability option"

record env =
  findUser :: "string \<Rightarrow> UserDoc option"
  findProject :: "json \<Rightarrow> error + ProjectDoc option"
  findCandidates :: "MongoFilter \<Rightarrow> number \<Rightarrow> error + RawUser list"
  provider :: "string \<Rightarrow> error + EmbeddingVector"
  hasApiKey :: bool  \<comment> \<open>\<open>process.env.OPENAI_API_KEY\<close> is set\<close>
  embedState :: embed_state
  clock :: string  \<comment> \<open>\<open>new Date().toISOString()\<close>\<close>
  toNumber :: "json \<Rightarrow> number"
  toText :: "json \<Rightarrow> string"

definition truthy_str :: "string option \<Rightarrow> bool" where
  \<comment> \<open>an optional string in a condition: \<open>undefined\<close> and the empty string are falsy\<close>
  "truthy_str s = (case s of None \<Rightarrow> False | Some t \<Rightarrow> t \<noteq> [])"

definition number_of :: "env \<Rightarrow> json \<Rightarrow> number" where
  \<comment> \<open>a value as an operand of arithmetic\<close>
  "number_of e v =
     (case v of JNum n \<Rightarrow> n | JBool b \<Rightarrow> Num (if b then 1 else 0) | JNull \<Rightarrow> Num 0
      | _ \<Rightarrow> toNumber e v)"

definition text_of :: "env \<Rightarrow> json \<Rightarrow> string" where
  \<comment> \<open>a value in a template literal\<close>
  "text_of e v =
     (case v of JStr s \<Rightarrow> s | JBool b \<Rightarrow> (if b then ''true'' else ''false'') | JNull \<Rightarrow> ''null''
      | _ \<Rightarrow> toText e v)"

subsection \<open>The tool \<open>match_users_by_skills\<close>\<close>

text \<open>
  \<open>limit\<close> is used as the operand of \<open>limit * 5\<close> and as the end of \<open>slice\<close>, which both
  convert it to a number first: \<open>in_limit\<close> holds that number.
\<close>

record MatchUsersInput =
  in_skills :: "string list"
  in_limit :: "number option"
  in_excludeUserId :: "string option"
  in_availabilityFilter :: "availability option"
  in_useEmbeddings :: "bool option"

datatype algorithm = cosine_binary | cosine_embedding

record MatchUsersOutput =
  matches :: "ScoredMatch list"
  searchedSkills :: "string list"
  totalFound :: nat
  algorithm :: algorithm

definition toCandidate :: "RawUser \<Rightarrow> UserSkillProfile" where
  "toCandidate u = \<lparr>userId = raw_id u, name = raw_name u, email = raw_email u,
     bio = (if truthy_str (raw_bio u) then the (raw_bio u) else []),
     skills = (case raw_skills u of None \<Rightarrow> [] | Some sk \<Rightarrow> sk),
     availability = (case raw_availability u of None \<Rightarrow> Available | Some a \<Rightarrow> a)\<rparr>"

definition matchUsersBySkills :: "env \<Rightarrow> MatchUsersInput \<Rightarrow> error + MatchUsersOutput" where
  "matchUsersBySkills e input =
     (let limit = (case in_limit input of None \<Rightarrow> Num 5 | Some l \<Rightarrow> l);
          useEmbeddings = (case in_useEmbeddings input of None \<Rightarrow> False | Some b \<Rightarrow> b)
      in
      if in_skills input = [] then Inl (InputError ''match_users_by_skills requires at least one skill'')
      else
        let preFilterLimit = num_min (num_mul limit (Num 5)) (Num 200);
            mongoFilter = \<lparr>filter_skills = in_skills input,
              filter_exclude = (if truthy_str (in_excludeUserId input) then in_excludeUserId input else None),
              filter_availability = in_availabilityFilter input\<rparr>
        in case findCandidates e mongoFilter preFilterLimit of
             Inl err \<Rightarrow> Inl err
           | Inr rawUsers \<Rightarrow>
               if rawUsers = [] then
                 Inr \<lparr>matches = [], searchedSkills = in_skills input, totalFound = 0, algorithm = cosine_binary\<rparr>
               else
                 let candidates = map toCandidate rawUsers in
                 if useEmbeddings \<and> hasApiKey e then
                   (case rankUsersWithEmbeddings (provider e) (embedState e) (in_skills input) candidates
                           limit (Num (fl (3 / 10))) of
                      Inl err \<Rightarrow> Inl err
                    | Inr rankedMatches \<Rightarrow>
                        Inr \<lparr>matches = rankedMatches, searchedSkills = in_skills input,
                             totalFound = length rankedMatches, algorithm = cosine_embedding\<rparr>)
                 else
                   (let rankedMatches = rankUsersBySkills (in_skills input) candidates limit (Num (fl (1 / 10)))
                    in Inr \<lparr>matches = rankedMatches, searchedSkills = in_skills input,
                            totalFound = length rankedMatches, algorithm = cosine_binary\<rparr>))"

subsection \<open>The tool \<open>draft_intro_message\<close>\<close>

text \<open>
  \<open>projectId\<close> and \<open>customNote\<close> are strings by their declared type; a tool call of the
  language model may bring any value, which the drafter tests and uses as it is.
\<close>

record DraftIntroInput =
  fromUserId :: string
  toUserId :: string
  projectId :: "json option"
  customNote :: "json option"

record DraftIntroOutput =
  subject :: string
  body :: string
  recipientId :: string
  recipientName :: string
  senderName :: string
  projectTitle :: "string option"
  generatedAt :: string

definition dash :: string where
  \<comment> \<open>the em dash of the templates (U+2014), kept as the single unit 0x97\<close>
  "dash = [CHR 0x97]"

definition nl :: string where
  "nl = [CHR 0x0A]"

definition quote :: string where
  "quote = [CHR 0x22]"

definition apostrophe :: string where
  "apostrophe = [CHR 0x27]"

definition buildSubject :: "UserDoc \<Rightarrow> string option \<Rightarrow> string" where
  "buildSubject sender title =
     (if truthy_str title
      then ''Collaboration Invitation: '' @ quote @ the title @ quote @ '' '' @ dash @ '' TeamForge''
      else ''Team Collaboration Invitation from '' @ doc_name sender @ '' '' @ dash @ '' TeamForge'')"

definition buildBody :: "UserDoc \<Rightarrow> UserDoc \<Rightarrow> string option \<Rightarrow> string option \<Rightarrow> string option \<Rightarrow> string" where
  \<comment> \<open>\<open>note\<close> is the text of \<open>customNote\<close> where it is truthy\<close>
  "buildBody sender recipient title description note =
     (let senderSkillsStr =
            (if doc_skills sender \<noteq> [] then join '', '' (take 5 (doc_skills sender)) else ''various skills'');
          projectCtx =
            (if truthy_str title
             then ''I'' @ apostrophe @ ''m building a project called **'' @ quote @ the title @ quote @ ''**''
                  @ (if truthy_str description then '' '' @ dash @ '' '' @ take 100 (the description) @ ''...'' else [])
                  @ '' ''
             else []);
          customCtx = (case note of None \<Rightarrow> [] | Some t \<Rightarrow> nl @ nl @ t)
      in ''Hi '' @ doc_name recipient @ '','' @ nl @ nl
         @ ''My name is '' @ doc_name sender @ '' and I found your profile on TeamForge. '' @ projectCtx
         @ ''I noticed your skills align well with what we'' @ apostrophe @ ''re looking for, and I''
         @ apostrophe @ ''d love to explore the possibility of collaborating.'' @ nl @ nl
         @ ''A bit about me: I bring expertise in '' @ senderSkillsStr @ ''. ''
         @ (if doc_bio sender \<noteq> [] then nl @ nl @ doc_bio sender else []) @ customCtx @ nl @ nl
         @ ''I believe your background could be a great addition to our team. ''
         @ ''Would you be open to a quick chat to discuss further?'' @ nl @ nl
         @ ''Looking forward to hearing from you!'' @ nl @ nl
         @ ''Best regards,'' @ nl @ doc_name sender @ nl @ nl
         @ dash @ nl @ ''Sent via TeamForge AI Assistant'')"

definition draftIntroMessage :: "env \<Rightarrow> DraftIntroInput \<Rightarrow> error + DraftIntroOutput" where
  "draftIntroMessage e input =
     (if fromUserId input = [] \<or> toUserId input = []
      then Inl (InputError ''draft_intro_message requires fromUserId and toUserId'')
      else case findUser e (fromUserId input) of
        None \<Rightarrow> Inl (SenderNotFound (fromUserId input))
      | Some sender \<Rightarrow>
         (case findUser e (toUserId input) of
            None \<Rightarrow> Inl (RecipientNotFound (toUserId input))
          | Some recipient \<Rightarrow>
             (case (if truthy_opt (projectId input) then findProject e (the (projectId input)) else Inr None) of
                Inl err \<Rightarrow> Inl err
              | Inr project \<Rightarrow>
                  let title = map_option doc_title project;
                      description = map_option doc_description project;
                      note = (if truthy_opt (customNote input) then Some (text_of e (the (customNote input)))
                              else None)
                  in Inr \<lparr>subject = buildSubject sender title,
                          body = trim (buildBody sender recipient title description note),
                          recipientId = toUserId input,
                          recipientName = doc_name recipient,
                          senderName = doc_name sender,
                          projectTitle = title,
                          generatedAt = clock e\<rparr>)))"

section \<open>Bounded agent\<close>

definition MAX_TOOL_CALLS :: nat where
  "MAX_TOOL_CALLS = 2"

datatype ToolName = match_users_by_skills | draft_intro_message

text \<open>
  A tool is called with its name and an untyped record that is cast to the input type of the
  tool.  In the model the input carries the tool: \<open>MatchInput\<close> for \<open>match_users_by_skills\<close>
  and \<open>DraftInput\<close> for \<open>draft_intro_message\<close>, so the \<open>default\<close> branch of the \<open>switch\<close>
  (an unknown tool name) has no counterpart.
\<close>

datatype tool_input = MatchInput MatchUsersInput | DraftInput DraftIntroInput

datatype tool_output = MatchOutput MatchUsersOutput | DraftOutput DraftIntroOutput

fun tool_of :: "tool_input \<Rightarrow> ToolName" where
  "tool_of (MatchInput i) = match_users_by_skills"
| "tool_of (DraftInput i) = draft_intro_message"

record ToolCall =
  log_tool :: ToolName
  log_input :: tool_input
  log_output :: tool_output
  log_executedAt :: string

record bounded_state =
  b_toolCallsMade :: nat
  b_toolCallLog :: "ToolCall list"

fun run_tool :: "env \<Rightarrow> tool_input \<Rightarrow> error + tool_output" where
  \<comment> \<open>the \<open>switch\<close> of \<open>executeToolCall\<close>\<close>
  "run_tool e (MatchInput i) = map_sum id MatchOutput (matchUsersBySkills e i)"
| "run_tool e (DraftInput i) = map_sum id DraftOutput (draftIntroMessage e i)"

definition executeToolCall ::
  "env \<Rightarrow> tool_input \<Rightarrow> bounded_state \<Rightarrow> (error + tool_output) \<times> bounded_state" where
  "executeToolCall e toolInput st =
     (if MAX_TOOL_CALLS \<le> b_toolCallsMade st then (Inl CapExceeded, st)
      else
        let st1 = st\<lparr>b_toolCallsMade := b_toolCallsMade st + 1\<rparr> in
        case run_tool e toolInput of
          Inl err \<Rightarrow> (Inl err, st1)
        | Inr out \<Rightarrow>
            (Inr out, st1\<lparr>b_toolCallLog := b_toolCallLog st1 @
               [\<lparr>log_tool = tool_of toolInput, log_input = toolInput, log_output = out,
                 log_executedAt = clock e\<rparr>]\<rparr>))"

definition KNOWN_SKILLS :: "string list" where
  "KNOWN_SKILLS =
    [''react'', ''react native'', ''node'', ''nodejs'', ''express'', ''typescript'', ''javascript'',
     ''python'', ''django'', ''flask'', ''fastapi'', ''mongodb'', ''postgresql'', ''mysql'', ''redis'',
     ''docker'', ''kubernetes'', ''aws'', ''gcp'', ''azure'', ''graphql'', ''rest'', ''figma'',
     ''flutter'', ''swift'', ''kotlin'', ''java'', ''c++'', ''rust'', ''go'', ''vue'', ''angular'',
     ''svelte'', ''next'', ''nextjs'', ''tailwind'', ''css'', ''html'', ''ui'', ''ux'', ''devops'',
     ''machine learning'', ''ml'', ''ai'', ''data science'', ''tensorflow'', ''pytorch'']"

fun starts_with :: "string \<Rightarrow> string \<Rightarrow> bool" where
  "starts_with s [] = True"
| "starts_with [] (p # ps) = False"
| "starts_with (c # cs) (p # ps) = (c = p \<and> starts_with cs ps)"

fun includes_str :: "string \<Rightarrow> string \<Rightarrow> bool" where
  \<comment> \<open>\<open>s.includes(sub)\<close>\<close>
  "includes_str [] sub = (sub = [])"
| "includes_str (c # cs) sub = (starts_with (c # cs) sub \<or> includes_str cs sub)"

definition extractSkillsFromMessage :: "string \<Rightarrow> string list" where
  "extractSkillsFromMessage msg = (let lower = toLowerCase msg in filter (includes_str lower) KNOWN_SKILLS)"

record AgentInput =
  in_message :: string
  in_userId :: string
  in_projectId :: "string option"
  in_approvedMessageTo :: "string option"

text \<open>
  The display texts of the answer (\<open>reasoning\<close>, \<open>approvalPrompt\<close>) are left out of
  \<open>AgentOutput\<close>; \<open>out_draftMessage\<close> is \<open>None\<close> where the source has \<open>null\<close> or no field.
\<close>

record AgentOutput =
  out_success :: bool
  out_toolCallsMade :: nat
  out_matches :: "ScoredMatch list option"
  out_draftMessage :: "DraftIntroOutput option"
  out_awaitingApproval :: bool
  out_toolCallLog :: "ToolCall list"
  out_error :: "error option"

definition agentFailure :: "error \<Rightarrow> bounded_state \<Rightarrow> AgentOutput" where
  \<comment> \<open>the \<open>catch\<close> block of \<open>runBoundedAgent\<close>\<close>
  "agentFailure err st =
     \<lparr>out_success = False, out_toolCallsMade = b_toolCallsMade st, out_matches = None,
      out_draftMessage = None, out_awaitingApproval = False,
      out_toolCallLog = b_toolCallLog st, out_error = Some err\<rparr>"

definition runBoundedAgent :: "env \<Rightarrow> AgentInput \<Rightarrow> AgentOutput" where
  "runBoundedAgent e inp =
     (let st0 = \<lparr>b_toolCallsMade = 0, b_toolCallLog = []\<rparr> in
      if truthy_str (in_approvedMessageTo inp) then
        (case executeToolCall e
                (DraftInput \<lparr>fromUserId = in_userId inp, toUserId = the (in_approvedMessageTo inp),
                             projectId = map_option JStr (in_projectId inp), customNote = None\<rparr>) st0 of
           (Inl err, st) \<Rightarrow> agentFailure err st
         | (Inr (DraftOutput draft), st) \<Rightarrow>
             \<lparr>out_success = True, out_toolCallsMade = b_toolCallsMade st, out_matches = None,
              out_draftMessage = Some draft, out_awaitingApproval = False,
              out_toolCallLog = b_toolCallLog st, out_error = None\<rparr>
         | (Inr (MatchOutput m), st) \<Rightarrow> agentFailure (UnknownTool []) st)
      else
        let extractedSkills = extractSkillsFromMessage (in_message inp) in
        if extractedSkills = [] then
          \<lparr>out_success = False, out_toolCallsMade = 0, out_matches = None,
           out_draftMessage = None, out_awaitingApproval = False,
           out_toolCallLog = b_toolCallLog st0,
           out_error = Some (InputError ''No recognizable skills found in your message.'')\<rparr>
        else
          (case executeToolCall e
                  (MatchInput \<lparr>in_skills = extractedSkills, in_limit = Some (Num 5),
                               in_excludeUserId = Some (in_userId inp),
                               in_availabilityFilter = None, in_useEmbeddings = None\<rparr>) st0 of
             (Inl err, st) \<Rightarrow> agentFailure err st
           | (Inr (DraftOutput d), st) \<Rightarrow> agentFailure (UnknownTool []) st
           | (Inr (MatchOutput matchResult), st) \<Rightarrow>
               if matches matchResult = [] then
                 \<lparr>out_success = True, out_toolCallsMade = b_toolCallsMade st, out_matches = Some [],
                  out_draftMessage = None, out_awaitingApproval = False,
                  out_toolCallLog = b_toolCallLog st, out_error = None\<rparr>
               else
                 \<lparr>out_success = True, out_toolCallsMade = b_toolCallsMade st,
                  out_matches = Some (matches matchResult),
                  out_draftMessage = None, out_awaitingApproval = True,
                  out_toolCallLog = b_toolCallLog st, out_error = None\<rparr>))"



section \<open>Agent driven by a language model\<close>

text \<open>
  The arguments of a requested tool call arrive as JSON text.  \<open>tc_arguments\<close> is the value
  \<open>JSON.parse\<close> gives, \<open>None\<close> where the text is empty or does not parse (\<open>safeParseJSON\<close>
  then falls back to the empty object).  Reading a property of \<open>null\<close> throws; every other
  value without the property gives \<open>undefined\<close>.
\<close>

fun get_field :: "json \<Rightarrow> string \<Rightarrow> error + json option" where
  "get_field (JObj kvs) k = Inr (map_of kvs k)"
| "get_field JNull k = Inl (TypeError ''Cannot read properties of null'')"
| "get_field v k = Inr None"

record tool_call =
  tc_id :: string
  tc_is_function :: bool  \<comment> \<open>\<open>type === 'function'\<close>\<close>
  tc_name :: string
  tc_arguments :: "json option"

record assistant_message =
  am_content :: "string option"
  am_tool_calls :: "tool_call list"

datatype tool_content = ToolFailed error | ToolReturned tool_output | CapReached

datatype chat_message =
    SystemMsg
  | UserMsg string
  | AssistantMsg assistant_message
  | ToolMsg string tool_content
  | SummaryRequest

record summary =
  s_reasoning :: "string option"
  s_awaitingApproval :: "bool option"
  s_approvalPrompt :: "string option"

text \<open>
  The language model is an oracle on the conversation so far: \<open>completion\<close> answers a
  request with tools, \<open>summarise\<close> answers the last request and gives the fields that
  \<open>safeParseJSON\<close> reads from the answer (none of them where it does not parse).  Each call
  may fail.
\<close>

record llm =
  completion :: "chat_message list \<Rightarrow> error + assistant_message"
  summarise :: "chat_message list \<Rightarrow> error + summary"

record AgentRequest =
  req_message :: string
  req_userId :: string
  req_projectId :: "string option"

record AgentResponse =
  resp_success :: bool
  resp_reasoning :: string
  resp_toolCallsMade :: nat
  resp_matches :: "ScoredMatch list option"
  resp_draftMessage :: "DraftIntroOutput option"
  resp_awaitingApproval :: bool
  resp_approvalPrompt :: "string option"
  resp_error :: "error option"

definition toAvailabilityFilter :: "json option \<Rightarrow> availability option" where
  "toAvailabilityFilter raw =
     (case raw of
        Some (JStr s) \<Rightarrow>
          (if s = ''available'' then Some Available
           else if s = ''busy'' then Some Busy
           else if s = ''part-time'' then Some PartTime else None)
      | _ \<Rightarrow> None)"

definition validateRecipientId :: "json option \<Rightarrow> ScoredMatch list \<Rightarrow> bool" where
  \<comment> \<open>\<open>confirmedMatches.some((u) => u.userId === toUserId)\<close>: only a string can be equal\<close>
  "validateRecipientId toUser confirmed =
     (case toUser of Some (JStr s) \<Rightarrow> list_ex (\<lambda>u. userId u = s) confirmed | _ \<Rightarrow> False)"

record dispatch_context =
  ctx_userId :: string
  ctx_projectId :: "string option"
  ctx_confirmedMatches :: "ScoredMatch list"

datatype dispatch_result = DispatchError error | DispatchResult tool_output

fun json_string :: "json \<Rightarrow> string option" where
  "json_string (JStr s) = Some s"
| "json_string v = None"

text \<open>
  \<open>dispatchTool\<close> returns \<open>{result}\<close> or \<open>{result: null, error}\<close>, or throws (\<open>Inl\<close>).
  The casts of the source do not test the arguments: \<open>limit\<close>, \<open>project_id\<close> and
  \<open>custom_note\<close> go to the tools as the values they are.  A skill that is no string makes
  \<open>s.replace\<close> throw in \<open>matchUsersBySkills\<close>, before the storage is read.
\<close>

fun is_JStr :: "json \<Rightarrow> bool" where
  "is_JStr (JStr s) = True"
| "is_JStr v = False"

definition or_else :: "json option \<Rightarrow> 'a \<Rightarrow> (json \<Rightarrow> 'a) \<Rightarrow> 'a" where
  \<comment> \<open>\<open>v ?? d\<close>: the default stands for \<open>undefined\<close> and for \<open>null\<close>\<close>
  "or_else v d f = (case v of None \<Rightarrow> d | Some JNull \<Rightarrow> d | Some j \<Rightarrow> f j)"

definition dispatchTool :: "env \<Rightarrow> string \<Rightarrow> json \<Rightarrow> dispatch_context \<Rightarrow> error + dispatch_result" where
  "dispatchTool e toolName args ctx =
     (if toolName = ''match_users_by_skills'' then
        (case get_field args ''skills'' of
           Inl err \<Rightarrow> Inl err
         | Inr (Some (JArr (s # ss))) \<Rightarrow>
             (case (get_field args ''limit'', get_field args ''availability_filter'') of
                (Inr limitArg, Inr availabilityArg) \<Rightarrow>
                  if list_all is_JStr (s # ss)
                  then
                    map_sum id (\<lambda>r. DispatchResult (MatchOutput r))
                      (matchUsersBySkills e
                        \<lparr>in_skills = map (\<lambda>v. the (json_string v)) (s # ss),
                         in_limit = Some (or_else limitArg (Num 5) (number_of e)),
                         in_excludeUserId = Some (ctx_userId ctx),
                         in_availabilityFilter = toAvailabilityFilter availabilityArg,
                         in_useEmbeddings = None\<rparr>)
                  else Inl (TypeError ''s.replace is not a function'')
              | _ \<Rightarrow> Inl (TypeError ''Cannot read properties of null''))
         | Inr other \<Rightarrow>
             Inr (DispatchError (InputError ''match_users_by_skills: skills must be a non-empty array'')))
      else if toolName = ''draft_intro_message'' then
        (case get_field args ''to_user_id'' of
           Inl err \<Rightarrow> Inl err
         | Inr toUser \<Rightarrow>
             if \<not> validateRecipientId toUser (ctx_confirmedMatches ctx) then
               Inr (DispatchError (GuardViolation toUser))
             else
               (case (get_field args ''project_id'', get_field args ''custom_note'') of
                  (Inr projectArg, Inr noteArg) \<Rightarrow>
                    map_sum id (\<lambda>r. DispatchResult (DraftOutput r))
                      (draftIntroMessage e
                        \<lparr>fromUserId = ctx_userId ctx,
                         toUserId = (case toUser of Some (JStr t) \<Rightarrow> t | _ \<Rightarrow> []),
                         projectId = or_else projectArg (map_option JStr (ctx_projectId ctx)) Some,
                         customNote = noteArg\<rparr>)
                | _ \<Rightarrow> Inl (TypeError ''Cannot read properties of null'')))
      else Inr (DispatchError (UnknownTool toolName)))"

record openai_state =
  o_toolCallsMade :: nat
  o_confirmedMatches :: "ScoredMatch list"
  o_draftMessage :: "DraftIntroOutput option"
  o_finalMatches :: "ScoredMatch list option"
  o_messages :: "chat_message list"
  o_dispatched :: "(string \<times> json) list"  \<comment> \<open>the calls of \<open>dispatchTool\<close> made so far\<close>

definition push_message :: "chat_message \<Rightarrow> openai_state \<Rightarrow> openai_state" where
  "push_message m st = st\<lparr>o_messages := o_messages st @ [m]\<rparr>"

definition capture :: "string \<Rightarrow> tool_output \<Rightarrow> openai_state \<Rightarrow> openai_state" where
  \<comment> \<open>what the loop keeps of a result, by the name of the tool that was called\<close>
  "capture toolName out st =
     (let st1 = (if toolName = ''match_users_by_skills''
                 then (case out of
                         MatchOutput m \<Rightarrow> st\<lparr>o_confirmedMatches := o_confirmedMatches st @ matches m,
                                               o_finalMatches := Some (matches m)\<rparr>
                       | DraftOutput d \<Rightarrow> st)
                 else st)
      in if toolName = ''draft_intro_message''
         then (case out of DraftOutput d \<Rightarrow> st1\<lparr>o_draftMessage := Some d\<rparr> | MatchOutput m \<Rightarrow> st1)
         else st1)"

fun process_tool_calls ::
  "env \<Rightarrow> AgentRequest \<Rightarrow> tool_call list \<Rightarrow> openai_state \<Rightarrow> error option \<times> openai_state" where
  \<comment> \<open>the loop over \<open>assistantMessage.tool_calls\<close>; \<open>Some err\<close> is an exception that leaves the loops\<close>
  "process_tool_calls e req [] st = (None, st)"
| "process_tool_calls e req (tc # tcs) st =
     (if \<not> tc_is_function tc then process_tool_calls e req tcs st
      else if MAX_TOOL_CALLS \<le> o_toolCallsMade st then
        (None, push_message (ToolMsg (tc_id tc) CapReached) st)
      else
        let args = (case tc_arguments tc of None \<Rightarrow> JObj [] | Some a \<Rightarrow> a);
            st1 = st\<lparr>o_dispatched := o_dispatched st @ [(tc_name tc, args)]\<rparr>
        in case dispatchTool e (tc_name tc) args
                  \<lparr>ctx_userId = req_userId req, ctx_projectId = req_projectId req,
                   ctx_confirmedMatches = o_confirmedMatches st\<rparr> of
             Inl err \<Rightarrow> (Some err, st1)
           | Inr r \<Rightarrow>
               let st2 = st1\<lparr>o_toolCallsMade := o_toolCallsMade st1 + 1\<rparr> in
               (case r of
                  DispatchError err \<Rightarrow>
                    process_tool_calls e req tcs (push_message (ToolMsg (tc_id tc) (ToolFailed err)) st2)
                | DispatchResult out \<Rightarrow>
                    process_tool_calls e req tcs
                      (push_message (ToolMsg (tc_id tc) (ToolReturned out)) (capture (tc_name tc) out st2))))"

fun agent_turns ::
  "env \<Rightarrow> llm \<Rightarrow> AgentRequest \<Rightarrow> nat \<Rightarrow> openai_state \<Rightarrow> error option \<times> openai_state" where
  \<comment> \<open>the loop \<open>for (let turn = 0; turn < 2; turn++)\<close>, with the turns that are left\<close>
  "agent_turns e l req 0 st = (None, st)"
| "agent_turns e l req (Suc n) st =
     (if MAX_TOOL_CALLS \<le> o_toolCallsMade st then (None, st)
      else case completion l (o_messages st) of
        Inl err \<Rightarrow> (Some err, st)
      | Inr assistantMessage \<Rightarrow>
          let st1 = push_message (AssistantMsg assistantMessage) st in
          if am_tool_calls assistantMessage = [] then (None, st1)
          else (case process_tool_calls e req (am_tool_calls assistantMessage) st1 of
                  (Some err, st2) \<Rightarrow> (Some err, st2)
                | (None, st2) \<Rightarrow> agent_turns e l req n st2))"

definition fallbackError :: "error \<Rightarrow> openai_state \<Rightarrow> AgentResponse" where
  "fallbackError err st =
     \<lparr>resp_success = False, resp_reasoning = ''An error occurred during agent execution.'',
      resp_toolCallsMade = o_toolCallsMade st, resp_matches = o_finalMatches st,
      resp_draftMessage = None, resp_awaitingApproval = False, resp_approvalPrompt = None,
      resp_error = Some err\<rparr>"

definition openai_run :: "env \<Rightarrow> llm \<Rightarrow> AgentRequest \<Rightarrow> AgentResponse \<times> openai_state" where
  \<comment> \<open>the body of \<open>runOpenAIAgent\<close> after the client is made: the answer, and the last state\<close>
  "openai_run e l req =
     (let st0 = \<lparr>o_toolCallsMade = 0, o_confirmedMatches = [], o_draftMessage = None,
                 o_finalMatches = None, o_messages = [SystemMsg, UserMsg (req_message req)],
                 o_dispatched = []\<rparr>
      in case agent_turns e l req 2 st0 of
        (Some err, st) \<Rightarrow> (fallbackError err st, st)
      | (None, st) \<Rightarrow>
          (case summarise l (o_messages st @ [SummaryRequest]) of
             Inl err \<Rightarrow> (fallbackError err st, st)
           | Inr parsed \<Rightarrow>
               (\<lparr>resp_success = True,
                 resp_reasoning = (case s_reasoning parsed of None \<Rightarrow> ''Agent completed.'' | Some r \<Rightarrow> r),
                 resp_toolCallsMade = o_toolCallsMade st, resp_matches = o_finalMatches st,
                 resp_draftMessage = o_draftMessage st,
                 resp_awaitingApproval = (case s_awaitingApproval parsed of None \<Rightarrow> False | Some b \<Rightarrow> b),
                 resp_approvalPrompt = s_approvalPrompt parsed,
                 resp_error = None\<rparr>, st)))"

definition runOpenAIAgent :: "env \<Rightarrow> llm \<Rightarrow> AgentRequest \<Rightarrow> error + AgentResponse" where
  \<comment> \<open>\<open>getOpenAIClient\<close> throws outside the \<open>try\<close> block when no key is set\<close>
  "runOpenAIAgent e l req =
     (if \<not> hasApiKey e then Inl (InputError ''OPENAI_API_KEY is not set in environment variables.'')
      else Inr (fst (openai_run e l req)))"

section \<open>Predicates of the claims and of their proofs\<close>

definition token_char :: "char \<Rightarrow> bool" where
  "token_char c = (is_lower_alnum c \<or> c = CHR '' '')"

fun single_spaced :: "string \<Rightarrow> bool" where
  "single_spaced [] = True"
| "single_spaced [c] = True"
| "single_spaced (c # d # cs) = (\<not> (c = CHR '' '' \<and> d = CHR '' '') \<and> single_spaced (d # cs))"

definition matched_of :: "UserSkillProfile list \<Rightarrow> ScoredMatch \<Rightarrow> bool" where
  "matched_of users m = (\<exists>u \<in> set users. userId m = userId u \<and> skills m = skills u
      \<and> set (matchedSkills m) \<subseteq> set (skills u) \<and> matchScore m = length (matchedSkills m))"

definition by_three_keys :: "ScoredMatch \<Rightarrow> ScoredMatch \<Rightarrow> bool" where
  \<comment> \<open>\<open>a\<close> may stand before \<open>b\<close>: \<open>(cosineSimilarity, matchScore, totalSkills)\<close> of \<open>a\<close> is not
      below that of \<open>b\<close> in the lexicographic order\<close>
  "by_three_keys a b =
     (cosineSimilarityOf a \<noteq> NaN \<and> cosineSimilarityOf b \<noteq> NaN
      \<and> (num_less (cosineSimilarityOf b) (cosineSimilarityOf a)
          \<or> (cosineSimilarityOf b = cosineSimilarityOf a
              \<and> (matchScore b < matchScore a
                  \<or> (matchScore b = matchScore a \<and> totalSkills b \<le> totalSkills a)))))"

definition by_similarity :: "ScoredMatch \<Rightarrow> ScoredMatch \<Rightarrow> bool" where
  \<comment> \<open>\<open>a\<close> may stand before \<open>b\<close>: the similarity of \<open>a\<close> is not below that of \<open>b\<close>\<close>
  "by_similarity a b = num_ge (cosineSimilarityOf a) (cosineSimilarityOf b)"

definition same_keys :: "number \<Rightarrow> nat \<Rightarrow> nat \<Rightarrow> ScoredMatch \<Rightarrow> bool" where
  "same_keys c s t m = (cosineSimilarityOf m = c \<and> matchScore m = s \<and> totalSkills m = t)"

definition kept :: "number \<Rightarrow> ScoredMatch \<Rightarrow> bool" where
  \<comment> \<open>the test of the filter, on the similarity that the match reports\<close>
  "kept minScore m = num_ge (cosineSimilarityOf m) minScore"

definition grid :: "real \<Rightarrow> bool" where
  \<comment> \<open>a multiple of the least positive binary64 value\<close>
  "grid x = (\<exists>m :: int. x = of_int m / 2 ^ 1074)"

fun on_grid :: "number \<Rightarrow> bool" where
  "on_grid (Num x) = grid x"
| "on_grid v = True"

fun finite32 :: "number \<Rightarrow> bool" where
  \<comment> \<open>the magnitude of a finite binary32 value is 0 or lies between \<open>2^-149\<close> and \<open>2^128\<close>\<close>
  "finite32 (Num x) = (x = 0 \<or> (1 / 2 ^ 149 \<le> \<bar>x\<bar> \<and> \<bar>x\<bar> \<le> 2 ^ 128))"
| "finite32 v = False"

fun is_finite :: "number \<Rightarrow> bool" where
  "is_finite (Num x) = True"
| "is_finite v = False"

definition acc_ok :: "real \<Rightarrow> bool" where
  \<comment> \<open>a sum of squares of finite binary32 values, as the loop of the cosine holds it\<close>
  "acc_ok s = ((s = 0 \<or> 1 / 2 ^ 298 \<le> s) \<and> s \<le> 2 ^ 310 \<and> fl s = s)"

fun returned_matches :: "chat_message \<Rightarrow> ScoredMatch list" where
  \<comment> \<open>the matches that a message of the conversation carries as the result of the match tool\<close>
  "returned_matches (ToolMsg i (ToolReturned (MatchOutput m))) = matches m"
| "returned_matches msg = []"

definition agent_bound :: "openai_state \<Rightarrow> bool" where
  "agent_bound st = (o_toolCallsMade st \<le> MAX_TOOL_CALLS \<and> length (o_dispatched st) \<le> MAX_TOOL_CALLS)"

definition agent_inv :: "openai_state \<Rightarrow> bool" where
  "agent_inv st =
     (o_toolCallsMade st \<le> MAX_TOOL_CALLS
      \<and> length (o_dispatched st) = o_toolCallsMade st
      \<and> o_confirmedMatches st = concat (map returned_matches (o_messages st))
      \<and> (case o_draftMessage st of
            None \<Rightarrow> True
          | Some d \<Rightarrow> recipientId d \<in> set (map userId (o_confirmedMatches st))))"


section \<open>Example inputs\<close>

definition ex_query :: "string list" where
  "ex_query = [''React'', ''Node.js'']"

definition ex_u1 :: UserSkillProfile where
  "ex_u1 = \<lparr>userId = ''u1'', name = ''Ada'', email = ''ada@example.org'', bio = [],
     skills = [''React'', ''TypeScript''], availability = Available\<rparr>"

definition ex_u2 :: UserSkillProfile where
  "ex_u2 = \<lparr>userId = ''u2'', name = ''Bob'', email = ''bob@example.org'', bio = [],
     skills = [''React'', ''Node.js'', ''MongoDB''], availability = Available\<rparr>"


definition ex_vocab :: Vocabulary where
  "ex_vocab = [(''react'', 0), (''nodejs'', 1), (''typescript'', 2), (''mongodb'', 3)]"


definition ex_m1 :: ScoredMatch where
  "ex_m1 = \<lparr>userId = ''u1'', name = ''Ada'', email = ''ada@example.org'', bio = [],
     skills = [''React'', ''TypeScript''], availability = Available,
     matchedSkills = [''React''], cosineSimilarityOf = Num (1/2), matchScore = 1, totalSkills = 2\<rparr>"

definition ex_m2 :: ScoredMatch where
  "ex_m2 = \<lparr>userId = ''u2'', name = ''Bob'', email = ''bob@example.org'', bio = [],
     skills = [''React'', ''Node.js'', ''MongoDB''], availability = Available,
     matchedSkills = [''React'', ''Node.js''], cosineSimilarityOf = Num (fl (8165 / 10000)),
     matchScore = 2, totalSkills = 3\<rparr>"

definition ex_m3 :: ScoredMatch where
  "ex_m3 = \<lparr>userId = ''u3'', name = ''Cy'', email = ''cy@example.org'', bio = [],
     skills = [''Go''], availability = Busy,
     matchedSkills = [], cosineSimilarityOf = Num 0, matchScore = 0, totalSkills = 1\<rparr>"

definition unit_vector :: EmbeddingVector where
  "unit_vector = Num 1 # replicate 1535 (Num 0)"

definition emb_provider :: "string \<Rightarrow> error + EmbeddingVector" where
  \<comment> \<open>a provider that answers every text with the same vector of dimension 1536\<close>
  "emb_provider text = Inr unit_vector"

definition big_vector :: EmbeddingVector where
  \<comment> \<open>1536 elements, the first beyond the range of binary32\<close>
  "big_vector = Num (10 ^ 39) # replicate 1535 (Num 0)"

definition big_provider :: "string \<Rightarrow> error + EmbeddingVector" where
  "big_provider text = Inr big_vector"

definition long_provider :: "string \<Rightarrow> error + EmbeddingVector" where
  \<comment> \<open>a provider whose vector has 1537 elements\<close>
  "long_provider text = Inr (replicate 1537 (Num 0))"

definition emb_state :: embed_state where
  "emb_state = \<lparr>embeddingCache = [], requests = []\<rparr>"

definition emb_u1 :: UserSkillProfile where
  "emb_u1 = \<lparr>userId = ''u1'', name = ''Ada'', email = ''ada@example.org'', bio = [],
     skills = [''Go''], availability = Available\<rparr>"

definition emb_u2 :: UserSkillProfile where
  "emb_u2 = \<lparr>userId = ''u2'', name = ''Bob'', email = ''bob@example.org'', bio = [],
     skills = [''Rust''], availability = Busy\<rparr>"

definition emb_u3 :: UserSkillProfile where
  "emb_u3 = \<lparr>userId = ''u3'', name = ''Cy'', email = ''cy@example.org'', bio = [],
     skills = [], availability = PartTime\<rparr>"

definition emb_m1 :: ScoredMatch where
  "emb_m1 = \<lparr>userId = ''u1'', name = ''Ada'', email = ''ada@example.org'', bio = [],
     skills = [''Go''], availability = Available,
     matchedSkills = [], cosineSimilarityOf = Num 1, matchScore = 0, totalSkills = 1\<rparr>"

definition emb_m2 :: ScoredMatch where
  "emb_m2 = \<lparr>userId = ''u2'', name = ''Bob'', email = ''bob@example.org'', bio = [],
     skills = [''Rust''], availability = Busy,
     matchedSkills = [''Rust''], cosineSimilarityOf = Num 1, matchScore = 1, totalSkills = 1\<rparr>"

definition emb_m3 :: ScoredMatch where
  "emb_m3 = \<lparr>userId = ''u3'', name = ''Cy'', email = ''cy@example.org'', bio = [],
     skills = [], availability = PartTime,
     matchedSkills = [], cosineSimilarityOf = Num 0, matchScore = 0, totalSkills = 0\<rparr>"

definition ex_vocab3 :: Vocabulary where
  "ex_vocab3 = [(''react'', 0), (''nodejs'', 1), (''mongodb'', 2)]"

definition demo_ada :: UserDoc where
  "demo_ada = \<lparr>doc_name = ''Ada'', doc_skills = [''React'', ''TypeScript''], doc_bio = []\<rparr>"

definition demo_bob :: UserDoc where
  "demo_bob = \<lparr>doc_name = ''Bob'', doc_skills = [''React'', ''Node.js'', ''MongoDB''], doc_bio = []\<rparr>"

definition demo_raw_bob :: RawUser where
  "demo_raw_bob = \<lparr>raw_id = ''u2'', raw_name = ''Bob'', raw_email = ''bob@example.org'',
     raw_bio = None, raw_skills = Some [''React'', ''Node.js'', ''MongoDB''],
     raw_availability = Some Available\<rparr>"

definition demo_env :: env where
  \<comment> \<open>a store with the users \<open>u1\<close> and \<open>u2\<close> and no project; every candidate query finds \<open>u2\<close>;
      the string \<open>"3"\<close> is the number 3 and the number 7 is the text \<open>"7"\<close>\<close>
  "demo_env = \<lparr>
     findUser = (\<lambda>i. if i = ''u1'' then Some demo_ada else if i = ''u2'' then Some demo_bob else None),
     findProject = (\<lambda>i. Inr None),
     findCandidates = (\<lambda>f n. Inr [demo_raw_bob]),
     provider = emb_provider, hasApiKey = True, embedState = emb_state,
     clock = ''2024-01-01T00:00:00.000Z'',
     toNumber = (\<lambda>v. if v = JStr ''3'' then Num 3 else NaN),
     toText = (\<lambda>v. if v = JNum (Num 7) then ''7'' else [])\<rparr>"

definition approve_input :: AgentInput where
  \<comment> \<open>a request that names \<open>u2\<close> as approved, in an invocation that has matched nobody\<close>
  "approve_input = \<lparr>in_message = ''yes'', in_userId = ''u1'', in_projectId = None,
     in_approvedMessageTo = Some ''u2''\<rparr>"

definition demo_req :: AgentRequest where
  "demo_req = \<lparr>req_message = ''Find me a React and Node.js developer'', req_userId = ''u1'',
     req_projectId = None\<rparr>"


definition draft_call :: "string \<Rightarrow> tool_call" where
  "draft_call t = \<lparr>tc_id = ''call_2'', tc_is_function = True, tc_name = ''draft_intro_message'',
     tc_arguments = Some (JObj [(''to_user_id'', JStr t)])\<rparr>"

definition sloppy_match_call :: tool_call where
  \<comment> \<open>\<open>limit\<close> is sent as a string\<close>
  "sloppy_match_call = \<lparr>tc_id = ''call_1'', tc_is_function = True, tc_name = ''match_users_by_skills'',
     tc_arguments = Some (JObj [(''skills'', JArr [JStr ''React'', JStr ''Node.js'']),
                                (''limit'', JStr ''3'')])\<rparr>"

definition sloppy_draft_call :: tool_call where
  \<comment> \<open>\<open>project_id\<close> and \<open>custom_note\<close> are sent as numbers\<close>
  "sloppy_draft_call = \<lparr>tc_id = ''call_2'', tc_is_function = True, tc_name = ''draft_intro_message'',
     tc_arguments = Some (JObj [(''to_user_id'', JStr ''u2''), (''project_id'', JNum (Num 404)),
                                (''custom_note'', JNum (Num 7))])\<rparr>"

definition no_summary :: summary where
  "no_summary = \<lparr>s_reasoning = None, s_awaitingApproval = None, s_approvalPrompt = None\<rparr>"


definition sloppy_llm :: llm where
  \<comment> \<open>the same requests, with arguments of other types than the tools declare\<close>
  "sloppy_llm = \<lparr>
     completion = (\<lambda>msgs. Inr \<lparr>am_content = None,
        am_tool_calls = (if length msgs = 2 then [sloppy_match_call] else [sloppy_draft_call])\<rparr>),
     summarise = (\<lambda>msgs. Inr no_summary)\<rparr>"

definition greedy_llm :: llm where
  \<comment> \<open>a model that asks for three drafts to a user nobody matched, in every turn\<close>
  "greedy_llm = \<lparr>
     completion = (\<lambda>msgs. Inr \<lparr>am_content = None,
        am_tool_calls = [draft_call ''u9'', draft_call ''u9'', draft_call ''u9'']\<rparr>),
     summarise = (\<lambda>msgs. Inr no_summary)\<rparr>"

definition demo_match_output :: MatchUsersOutput where
  "demo_match_output = \<lparr>matches = [ex_m2], searchedSkills = ex_query, totalFound = 1,
     algorithm = cosine_binary\<rparr>"

definition demo_draft :: DraftIntroOutput where
  "demo_draft = \<lparr>subject = buildSubject demo_ada None,
     body = trim (buildBody demo_ada demo_bob None None None),
     recipientId = ''u2'', recipientName = ''Bob'', senderName = ''Ada'',
     projectTitle = None, generatedAt = ''2024-01-01T00:00:00.000Z''\<rparr>"

definition sloppy_draft :: DraftIntroOutput where
  \<comment> \<open>the draft with the note \<open>7\<close>\<close>
  "sloppy_draft = \<lparr>subject = buildSubject demo_ada None,
     body = trim (buildBody demo_ada demo_bob None None (Some ''7'')),
     recipientId = ''u2'', recipientName = ''Bob'', senderName = ''Ada'',
     projectTitle = None, generatedAt = ''2024-01-01T00:00:00.000Z''\<rparr>"

definition demo_draft_input :: tool_input where
  "demo_draft_input = DraftInput \<lparr>fromUserId = ''u1'', toUserId = ''u2'', projectId = None, customNote = None\<rparr>"

definition after_two_calls :: bounded_state where
  \<comment> \<open>the state of the bounded agent once \<open>executeToolCall\<close> has run twice\<close>
  "after_two_calls =
     snd (executeToolCall demo_env demo_draft_input
       (snd (executeToolCall demo_env demo_draft_input \<lparr>b_toolCallsMade = 0, b_toolCallLog = []\<rparr>)))"

section \<open>Normalisation is idempotent\<close>

lemma is_space_SP [simp]: "is_space (CHR '' '')"
  by (simp add: is_space_def)

lemma alnum_not_space: "is_lower_alnum c \<Longrightarrow> \<not> is_space c"
  by (auto simp: is_lower_alnum_def is_space_def Let_def)

lemma token_char_space_iff: "token_char c \<Longrightarrow> is_space c = (c = CHR '' '')"
  by (auto simp: token_char_def alnum_not_space)

lemma lower_char_token: "token_char c \<Longrightarrow> lower_char c = c"
  by (auto simp: token_char_def is_lower_alnum_def lower_char_def Let_def)

lemma toLowerCase_tokens: "list_all token_char s \<Longrightarrow> toLowerCase s = s"
  by (induction s) (auto simp: toLowerCase_def lower_char_token)

lemma strip_other_tokens: "list_all token_char s \<Longrightarrow> strip_other s = s"
  by (induction s) (auto simp: strip_other_def token_char_def)

lemma collapse_ws_tokens:
  "list_all token_char s \<Longrightarrow> single_spaced s \<Longrightarrow> collapse_ws s = s"
proof (induction s rule: single_spaced.induct)
  case 1
  then show ?case by simp
next
  case (2 c)
  then show ?case by (simp add: token_char_space_iff)
next
  case (3 c d cs)
  then show ?case by (auto simp: token_char_space_iff)
qed

lemma dropWhile_hd: "xs \<noteq> [] \<Longrightarrow> \<not> P (hd xs) \<Longrightarrow> dropWhile P xs = xs"
  by (cases xs) auto

lemma trim_fixed:
  assumes "s = [] \<or> (\<not> is_space (hd s) \<and> \<not> is_space (last s))"
  shows "trim s = s"
proof (cases "s = []")
  case True
  then show ?thesis by (simp add: trim_def)
next
  case False
  with assms have h: "\<not> is_space (hd s)" and l: "\<not> is_space (last s)" by auto
  from h False have "dropWhile is_space s = s" by (rule dropWhile_hd [rotated])
  moreover from l False have "dropWhile is_space (rev s) = rev s"
    by (intro dropWhile_hd) (auto simp: hd_rev)
  ultimately show ?thesis by (simp add: trim_def)
qed

lemma strip_other_chars: "list_all (\<lambda>c. is_lower_alnum c \<or> is_space c) (strip_other s)"
  by (simp add: strip_other_def list_all_iff)

lemma collapse_ws_chars:
  "list_all (\<lambda>c. is_lower_alnum c \<or> is_space c) s \<Longrightarrow> list_all token_char (collapse_ws s)"
proof (induction s rule: collapse_ws.induct)
  case 1
  then show ?case by simp
next
  case (2 c cs)
  have "list_all (\<lambda>c. is_lower_alnum c \<or> is_space c) (dropWhile is_space cs)"
    using "2.prems" by (auto simp: list_all_iff dest: set_dropWhileD)
  with 2 show ?case by (auto simp: token_char_def)
qed

lemma collapse_ws_hd:
  "s \<noteq> [] \<Longrightarrow> \<not> is_space (hd s) \<Longrightarrow> collapse_ws s \<noteq> [] \<and> hd (collapse_ws s) = hd s"
  by (cases s) auto

lemma single_spaced_Cons:
  "single_spaced (c # cs) = ((cs \<noteq> [] \<longrightarrow> \<not> (c = CHR '' '' \<and> hd cs = CHR '' '')) \<and> single_spaced cs)"
  by (cases cs) auto

lemma collapse_ws_single: "single_spaced (collapse_ws s)"
proof (induction s rule: collapse_ws.induct)
  case 1
  then show ?case by simp
next
  case (2 c cs)
  show ?case
  proof (cases "is_space c")
    case True
    let ?r = "dropWhile is_space cs"
    have "collapse_ws ?r \<noteq> [] \<Longrightarrow> hd (collapse_ws ?r) \<noteq> CHR '' ''"
    proof -
      assume ne: "collapse_ws ?r \<noteq> []"
      then have r: "?r \<noteq> []" by (metis collapse_ws.simps(1))
      then have ns: "\<not> is_space (hd ?r)" by (simp add: hd_dropWhile)
      from collapse_ws_hd [OF r ns] have "hd (collapse_ws ?r) = hd ?r" by simp
      with ns show ?thesis by auto
    qed
    with True 2 show ?thesis by (auto simp: single_spaced_Cons)
  next
    case False
    then have "c \<noteq> CHR '' ''" by auto
    with False 2 show ?thesis by (auto simp: single_spaced_Cons)
  qed
qed

lemma single_spaced_append: "single_spaced (xs @ ys) \<Longrightarrow> single_spaced xs \<and> single_spaced ys"
proof (induction xs)
  case Nil
  then show ?case by simp
next
  case (Cons x xs)
  then show ?case by (cases xs) (auto simp: single_spaced_Cons)
qed

lemma rev_dropWhile_split:
  "xs = rev (dropWhile P (rev xs)) @ rev (takeWhile P (rev xs))"
proof -
  have "rev (dropWhile P (rev xs)) @ rev (takeWhile P (rev xs)) = rev (rev xs)"
    by (simp only: rev_append [symmetric] takeWhile_dropWhile_id)
  then show ?thesis by simp
qed

lemma trim_decompose: "\<exists>pre post. s = pre @ trim s @ post"
proof -
  let ?t = "dropWhile is_space s"
  have "s = takeWhile is_space s @ ?t" by simp
  moreover have "?t = trim s @ rev (takeWhile is_space (rev ?t))"
    unfolding trim_def by (rule rev_dropWhile_split)
  ultimately have "s = takeWhile is_space s @ trim s @ rev (takeWhile is_space (rev ?t))" by simp
  then show ?thesis by blast
qed

lemma trim_single: "single_spaced s \<Longrightarrow> single_spaced (trim s)"
proof -
  assume a: "single_spaced s"
  obtain pre post where "s = pre @ trim s @ post" using trim_decompose by blast
  with a have "single_spaced (pre @ trim s @ post)" by simp
  then show ?thesis using single_spaced_append by blast
qed

lemma trim_chars: "list_all P s \<Longrightarrow> list_all P (trim s)"
proof -
  assume a: "list_all P s"
  obtain pre post where "s = pre @ trim s @ post" using trim_decompose by blast
  with a have "list_all P (pre @ trim s @ post)" by simp
  then show ?thesis by simp
qed

lemma trim_ends: "trim s = [] \<or> (\<not> is_space (hd (trim s)) \<and> \<not> is_space (last (trim s)))"
proof (cases "dropWhile is_space s = []")
  case True
  have "trim s = []" unfolding trim_def True by simp
  then show ?thesis by simp
next
  case False
  let ?t = "dropWhile is_space s"
  let ?u = "dropWhile is_space (rev ?t)"
  from False have h: "\<not> is_space (hd ?t)" by (simp add: hd_dropWhile)
  have "hd ?t \<in> set (rev ?t)" using False by simp
  with h have une: "?u \<noteq> []" by (auto simp: dropWhile_eq_Nil_conv)
  then have l: "\<not> is_space (hd ?u)" by (simp add: hd_dropWhile)
  have tu: "trim s = rev ?u" by (simp add: trim_def)
  have last_u: "last (trim s) = hd ?u" using une by (simp add: tu last_rev)
  obtain post where "?t = trim s @ post"
  proof -
    have "?t = trim s @ rev (takeWhile is_space (rev ?t))"
      unfolding trim_def by (rule rev_dropWhile_split)
    then show ?thesis using that by blast
  qed
  moreover have "trim s \<noteq> []" using une by (simp add: tu)
  ultimately have "hd ?t = hd (trim s)" by (metis hd_append2)
  with h l last_u show ?thesis by simp
qed

text \<open>
  C9: \<open>normalize\<close> (the source's \<open>normaliseSkill\<close>: lower-case, strip every character other
  than \<open>[a-z0-9]\<close> and white space, collapse white-space runs to one space, trim) is
  idempotent: applying it to its own result changes nothing.
\<close>

theorem normaliseSkill_idempotent: "normaliseSkill (normaliseSkill s) = normaliseSkill s"
proof -
  let ?c = "collapse_ws (strip_other (toLowerCase s))"
  let ?n = "normaliseSkill s"
  have n: "?n = trim ?c" by (simp add: normaliseSkill_def)
  have chars: "list_all token_char ?n"
    unfolding n by (intro trim_chars collapse_ws_chars strip_other_chars)
  have single: "single_spaced ?n"
    unfolding n by (intro trim_single collapse_ws_single)
  have ends: "?n = [] \<or> (\<not> is_space (hd ?n) \<and> \<not> is_space (last ?n))"
    unfolding n by (rule trim_ends)
  have "normaliseSkill ?n = trim (collapse_ws (strip_other (toLowerCase ?n)))"
    by (simp add: normaliseSkill_def)
  also have "\<dots> = trim (collapse_ws ?n)"
    using chars by (simp add: toLowerCase_tokens strip_other_tokens)
  also have "\<dots> = trim ?n"
    using chars single by (simp add: collapse_ws_tokens)
  also have "\<dots> = ?n"
    using ends by (rule trim_fixed)
  finally show ?thesis .
qed


section \<open>Facts about rounding\<close>

lemma rne_err: "\<bar>of_int (rne y) - y\<bar> \<le> 1/2"
  unfolding rne_def Let_def by (auto simp: abs_le_iff)

lemma rne_of_int [simp]: "rne (of_int n) = n"
  by (simp add: rne_def)

lemma round_to_binade:
  assumes "2 powr of_int k \<le> \<bar>x\<bar>" "\<bar>x\<bar> < 2 powr of_int (k + 1)"
  shows "round_to p x = of_int (rne (x / 2 powr of_int (k - int p + 1))) * 2 powr of_int (k - int p + 1)"
proof -
  have pos: "0 < \<bar>x\<bar>" using assms(1) by (smt (verit) powr_gt_zero)
  then have nz: "x \<noteq> 0" by auto
  have "\<lfloor>log 2 \<bar>x\<bar>\<rfloor> = k"
    using assms pos by (subst floor_log_eq_powr_iff) auto
  with nz show ?thesis by (simp add: round_to_def Let_def)
qed

lemma round_to_err:
  "\<bar>round_to p x - x\<bar> \<le> \<bar>x\<bar> / 2 ^ p"
proof (cases "x = 0")
  case True
  then show ?thesis by (simp add: round_to_def)
next
  case False
  define k where "k = \<lfloor>log 2 \<bar>x\<bar>\<rfloor>"
  define s :: real where "s = 2 powr of_int (k - int p + 1)"
  have spos: "0 < s" by (simp add: s_def)
  have "2 powr of_int k \<le> \<bar>x\<bar>"
    using False floor_log_eq_powr_iff [of "\<bar>x\<bar>" 2 k] by (simp add: k_def)
  have r: "round_to p x = of_int (rne (x / s)) * s"
    using False by (simp add: round_to_def Let_def k_def s_def)
  have "\<bar>of_int (rne (x / s)) - x / s\<bar> \<le> 1/2" by (rule rne_err)
  then have "\<bar>of_int (rne (x / s)) - x / s\<bar> * s \<le> 1/2 * s"
    using spos by (intro mult_right_mono) auto
  moreover have "of_int (rne (x / s)) * s - x = (of_int (rne (x / s)) - x / s) * s"
    using spos by (simp add: field_simps)
  then have "\<bar>of_int (rne (x / s)) * s - x\<bar> = \<bar>of_int (rne (x / s)) - x / s\<bar> * s"
    using spos by (simp add: abs_mult)
  ultimately have "\<bar>of_int (rne (x / s)) * s - x\<bar> \<le> s / 2" by simp
  moreover have "s / 2 = 2 powr of_int k / 2 ^ p"
    by (simp add: s_def powr_diff powr_add powr_realpow)
  moreover have "2 powr of_int k / 2 ^ p \<le> \<bar>x\<bar> / 2 ^ p"
    using \<open>2 powr of_int k \<le> \<bar>x\<bar>\<close> by (simp add: divide_right_mono)
  ultimately show ?thesis using r by simp
qed

lemma rne_eq: "of_int n - 1/2 < y \<Longrightarrow> y < of_int n + 1/2 \<Longrightarrow> rne y = n"
proof -
  assume a: "of_int n - 1/2 < y" and b: "y < of_int n + 1/2"
  have "\<lfloor>y\<rfloor> = n \<or> \<lfloor>y\<rfloor> = n - 1" using a b by linarith
  then show ?thesis
  proof
    assume f: "\<lfloor>y\<rfloor> = n"
    then have "y - of_int n < 1/2" using b by simp
    with f show ?thesis by (simp add: rne_def Let_def)
  next
    assume f: "\<lfloor>y\<rfloor> = n - 1"
    then have "1/2 < y - of_int (n - 1)" using a by simp
    with f show ?thesis by (simp add: rne_def Let_def)
  qed
qed

lemma fl_sqrt2: "fl (sqrt 2) = 6369051672525773 / 2 ^ 52"
proof -
  have a: "2 powr of_int 0 \<le> \<bar>sqrt 2\<bar>" by simp
  have b: "\<bar>sqrt 2\<bar> < 2 powr of_int (0 + 1)" by (simp add: real_less_lsqrt)
  have lo: "(6369051672525773 - 1/2) / 2 ^ 52 < sqrt 2"
    by (rule real_less_rsqrt) (simp add: power2_eq_square)
  have hi: "sqrt 2 < (6369051672525773 + 1/2) / 2 ^ 52"
    by (rule real_less_lsqrt) (simp_all add: power2_eq_square)
  have "rne (sqrt 2 * 2 ^ 52) = 6369051672525773"
    using lo hi by (intro rne_eq) (simp_all add: field_simps)
  then show ?thesis unfolding fl_def round_to_binade [OF a b]
    by (simp add: powr_minus_divide)
qed

lemma round_to_exact:
  assumes "\<bar>n\<bar> < 2 ^ p"
  shows "round_to p (of_int n * 2 powr of_int e) = of_int n * 2 powr of_int e"
proof (cases "n = 0")
  case True
  then show ?thesis by (simp add: round_to_def)
next
  case False
  define x :: real where "x = of_int n * 2 powr of_int e"
  define k where "k = \<lfloor>log 2 \<bar>x\<bar>\<rfloor>"
  have xpos: "0 < \<bar>x\<bar>" using False by (simp add: x_def)
  have kx: "2 powr of_int k \<le> \<bar>x\<bar>"
    using xpos floor_log_eq_powr_iff [of "\<bar>x\<bar>" 2 k] by (simp add: k_def)
  have "\<bar>x\<bar> = of_int \<bar>n\<bar> * 2 powr of_int e" by (simp add: x_def abs_mult)
  also have "\<dots> < 2 ^ p * 2 powr of_int e"
  proof -
    have "(of_int \<bar>n\<bar> :: real) < of_int (2 ^ p)" using assms by (simp only: of_int_less_iff)
    then show ?thesis by simp
  qed
  also have "\<dots> = 2 powr of_int (int p + e)" by (simp add: powr_add powr_realpow)
  finally have "\<bar>x\<bar> < 2 powr of_int (int p + e)" .
  with kx have "2 powr of_int k < (2::real) powr of_int (int p + e)"
    by (rule order_le_less_trans)
  then have "(of_int k :: real) < of_int (int p + e)"
    by (subst (asm) powr_less_cancel_iff) simp_all
  then have "k < int p + e" by (simp only: of_int_less_iff)
  then obtain d :: nat where d: "e = (k - int p + 1) + int d"
    by (metis add.commute add_diff_cancel_left' diff_add_cancel zle_iff_zadd zless_imp_add1_zle add.assoc)
  have "x / 2 powr of_int (k - int p + 1) = of_int n * 2 ^ d"
    by (simp add: x_def d powr_add powr_realpow)
  also have "\<dots> = of_int (n * 2 ^ d)" by simp
  finally have "rne (x / 2 powr of_int (k - int p + 1)) = n * 2 ^ d"
    by (simp only: rne_of_int)
  moreover have "x \<noteq> 0" using xpos by auto
  ultimately have "round_to p x = of_int (n * 2 ^ d) * 2 powr of_int (k - int p + 1)"
    by (simp add: round_to_def Let_def k_def)
  also have "\<dots> = x" by (simp add: x_def d powr_add powr_realpow)
  finally show ?thesis by (simp add: x_def)
qed

lemma fl_of_int: "\<bar>n\<bar> < 2 ^ 53 \<Longrightarrow> fl (of_int n) = of_int n"
  using round_to_exact [of n 53 0] by (simp add: fl_def)

lemma fl_0 [simp]: "fl 0 = 0"
  by (simp add: fl_def round_to_def)

lemma fl_1 [simp]: "fl 1 = 1"
  using fl_of_int [of 1] by simp

lemma fl_numeral [simp]: "(numeral w :: int) < 2 ^ 53 \<Longrightarrow> fl (numeral w) = numeral w"
  using fl_of_int [of "numeral w"] by simp

lemma fl_err: "\<bar>fl x - x\<bar> \<le> \<bar>x\<bar> / 2 ^ 53"
  unfolding fl_def by (rule round_to_err)

lemma fl_pos: "0 < x \<Longrightarrow> 0 < fl x"
proof -
  assume a: "0 < x"
  have "\<bar>x\<bar> / 2 ^ 53 < x" using a by (simp add: field_simps)
  with fl_err [of x] show ?thesis by linarith
qed

lemma fl_neg: "x < 0 \<Longrightarrow> fl x < 0"
proof -
  assume a: "x < 0"
  have "\<bar>x\<bar> / 2 ^ 53 < - x" using a by (simp add: field_simps)
  with fl_err [of x] show ?thesis by linarith
qed

lemma fl_eq_0_iff [simp]: "fl x = 0 \<longleftrightarrow> x = 0"
proof
  assume z: "fl x = 0"
  show "x = 0"
  proof (rule ccontr)
    assume "x \<noteq> 0"
    then consider "0 < x" | "x < 0" by linarith
    then show False using fl_pos [of x] fl_neg [of x] z by cases simp_all
  qed
next
  assume "x = 0"
  then show "fl x = 0" by simp
qed

lemma fl_bounds:
  assumes "0 \<le> a" "a \<le> x" "x \<le> b"
  shows "a * (1 - 1 / 2 ^ 53) \<le> fl x" "fl x \<le> b * (1 + 1 / 2 ^ 53)"
proof -
  have x: "0 \<le> x" using assms by simp
  then have "\<bar>x\<bar> = x" by simp
  with fl_err [of x] have "\<bar>fl x - x\<bar> \<le> x / 2 ^ 53" by simp
  then have e: "x - x / 2 ^ 53 \<le> fl x" "fl x \<le> x + x / 2 ^ 53"
    by linarith+
  have "a * (1 - 1 / 2 ^ 53) \<le> x * (1 - 1 / 2 ^ 53)"
    using assms by (intro mult_right_mono) simp_all
  with e show "a * (1 - 1 / 2 ^ 53) \<le> fl x" by (simp add: algebra_simps)
  have "x * (1 + 1 / 2 ^ 53) \<le> b * (1 + 1 / 2 ^ 53)"
    using assms by (intro mult_right_mono) simp_all
  with e show "fl x \<le> b * (1 + 1 / 2 ^ 53)" by (simp add: algebra_simps)
qed

lemma fl_sq_sqrt2: "fl (fl (sqrt 2) * fl (sqrt 2)) = 4503599627370497 / 2 ^ 51"
proof -
  let ?x = "(6369051672525773 / 2 ^ 52 :: real) * (6369051672525773 / 2 ^ 52)"
  have a: "2 powr of_int 1 \<le> \<bar>?x\<bar>" by simp
  have b: "\<bar>?x\<bar> < 2 powr of_int (1 + 1)" by simp
  have "rne (?x * 2 ^ 51) = 4503599627370497"
    by (intro rne_eq) simp_all
  then have "fl ?x = 4503599627370497 / 2 ^ 51"
    unfolding fl_def round_to_binade [OF a b] by (simp add: powr_minus_divide)
  then show ?thesis by (simp only: fl_sqrt2)
qed

lemma fl_quot: "fl (2 / (4503599627370497 / 2 ^ 51)) = 1 - 1 / 2 ^ 52"
proof -
  let ?x = "2 / (4503599627370497 / 2 ^ 51) :: real"
  have a: "2 powr of_int (-1) \<le> \<bar>?x\<bar>" by (simp add: powr_minus_divide)
  have b: "\<bar>?x\<bar> < 2 powr of_int (-1 + 1)" by simp
  have "rne (?x * 2 ^ 53) = 2 ^ 53 - 2"
    by (intro rne_eq) simp_all
  then show ?thesis unfolding fl_def round_to_binade [OF a b]
    by (simp add: powr_minus_divide)
qed

lemma fl_half [simp]: "fl (1/2) = 1/2"
  using round_to_exact [of 1 53 "-1"] by (simp add: fl_def powr_minus_divide)

lemma fl_between:
  assumes "0 \<le> a" "a \<le> x" "x \<le> b" "a' \<le> a * (1 - 1 / 2 ^ 53)" "b * (1 + 1 / 2 ^ 53) \<le> b'"
  shows "a' \<le> fl x \<and> fl x \<le> b'"
  using fl_bounds [OF assms(1-3)] assms(4,5) by linarith

lemma toFixed4_eval:
  assumes "0 \<le> x" "of_int n - 1/2 \<le> x * 10 ^ 4" "x * 10 ^ 4 < of_int n + 1/2" "x < 10 ^ 21"
  shows "toFixed4 x = fl (of_int n / 10 ^ 4)"
proof -
  have "\<lfloor>\<bar>x\<bar> * 10 ^ 4 + 1/2\<rfloor> = n" using assms by (simp add: floor_eq_iff)
  with assms(1,4) show ?thesis by (simp add: toFixed4_def Let_def)
qed

lemma fl_pos_iff [simp]: "0 < fl x \<longleftrightarrow> 0 < x"
proof
  assume a: "0 < fl x"
  show "0 < x"
  proof (rule ccontr)
    assume "\<not> 0 < x"
    then consider "x = 0" | "x < 0" by linarith
    then show False using a fl_neg [of x] by cases simp_all
  qed
next
  assume "0 < x"
  then show "0 < fl x" by (rule fl_pos)
qed

lemma toFixed4_0 [simp]: "toFixed4 0 = 0"
  by (simp add: toFixed4_def)

lemma toFixed4_1 [simp]: "toFixed4 1 = 1"
  using toFixed4_eval [of 1 10000] by simp


lemma rne_mono: "x \<le> y \<Longrightarrow> rne x \<le> rne y"
proof -
  assume xy: "x \<le> y"
  have f: "\<lfloor>x\<rfloor> \<le> \<lfloor>y\<rfloor>" using xy by (rule floor_mono)
  have bx: "rne x \<le> \<lfloor>x\<rfloor> + 1" by (simp add: rne_def Let_def)
  have by': "\<lfloor>y\<rfloor> \<le> rne y" by (simp add: rne_def Let_def)
  show ?thesis
  proof (cases "\<lfloor>x\<rfloor> = \<lfloor>y\<rfloor>")
    case False
    with f have "\<lfloor>x\<rfloor> + 1 \<le> \<lfloor>y\<rfloor>" by simp
    with bx by' show ?thesis by linarith
  next
    case True
    then have "x - of_int \<lfloor>x\<rfloor> \<le> y - of_int \<lfloor>y\<rfloor>" using xy by simp
    with True show ?thesis by (auto simp: rne_def Let_def)
  qed
qed

lemma rne_ge_int: "of_int n \<le> y \<Longrightarrow> n \<le> rne y"
  using rne_mono [of "of_int n" y] by simp

lemma rne_le_int: "y \<le> of_int n \<Longrightarrow> rne y \<le> n"
  using rne_mono [of y "of_int n"] by simp

lemma fl_binade:
  assumes "2 powr of_int k \<le> x" "x < 2 powr of_int (k + 1)"
  shows "fl x = of_int (rne (x / 2 powr of_int (k - 52))) * 2 powr of_int (k - 52)"
    and "2 powr of_int k \<le> fl x" and "fl x \<le> 2 powr of_int (k + 1)"
proof -
  have xpos: "0 < x" using assms(1) by (smt (verit) powr_gt_zero)
  let ?s = "2 powr of_int (k - 52) :: real"
  have spos: "0 < ?s" by simp
  have a: "2 powr of_int k \<le> \<bar>x\<bar>" "\<bar>x\<bar> < 2 powr of_int (k + 1)" using assms xpos by simp_all
  have r: "fl x = of_int (rne (x / ?s)) * ?s"
    unfolding fl_def using round_to_binade [OF a, of 53] by simp
  then show "fl x = of_int (rne (x / ?s)) * ?s" .
  have k1: "2 powr of_int k = 2 ^ 52 * ?s"
    by (simp add: powr_diff powr_realpow [symmetric])
  have k2: "2 powr of_int (k + 1) = 2 ^ 53 * ?s"
    by (simp add: powr_diff powr_add powr_realpow [symmetric])
  have "2 ^ 52 * ?s \<le> x" using assms(1) by (simp only: k1)
  then have "2 ^ 52 \<le> x / ?s" using spos by (simp only: pos_le_divide_eq)
  then have "of_int (2 ^ 52) \<le> x / ?s" by simp
  then have lo: "2 ^ 52 \<le> rne (x / ?s)" by (rule rne_ge_int)
  have "x < 2 ^ 53 * ?s" using assms(2) by (simp only: k2)
  then have "x / ?s < 2 ^ 53" using spos by (simp only: pos_divide_less_eq)
  then have "x / ?s \<le> of_int (2 ^ 53)" by simp
  then have hi: "rne (x / ?s) \<le> 2 ^ 53" by (rule rne_le_int)
  have "(2 ^ 52 :: real) \<le> of_int (rne (x / ?s))" using lo by (metis of_int_le_iff of_int_numeral of_int_power)
  then have "2 ^ 52 * ?s \<le> of_int (rne (x / ?s)) * ?s" using spos by (intro mult_right_mono) simp_all
  then show "2 powr of_int k \<le> fl x" by (simp only: r k1)
  have "of_int (rne (x / ?s)) \<le> (2 ^ 53 :: real)" using hi by (metis of_int_le_iff of_int_numeral of_int_power)
  then have "of_int (rne (x / ?s)) * ?s \<le> 2 ^ 53 * ?s" using spos by (intro mult_right_mono) simp_all
  then show "fl x \<le> 2 powr of_int (k + 1)" by (simp only: r k2)
qed

lemma binade_of:
  assumes "0 < (x::real)"
  shows "2 powr of_int \<lfloor>log 2 x\<rfloor> \<le> x \<and> x < 2 powr of_int (\<lfloor>log 2 x\<rfloor> + 1)"
  using assms floor_log_eq_powr_iff [of x 2 "\<lfloor>log 2 x\<rfloor>"] by simp

lemma fl_mono:
  assumes "0 \<le> x" "x \<le> y"
  shows "fl x \<le> fl y"
proof (cases "x = 0")
  case True
  have "0 \<le> fl y" using assms fl_bounds(1) [of 0 y y] by simp
  with True show ?thesis by simp
next
  case False
  with assms have xpos: "0 < x" and ypos: "0 < y" by simp_all
  define kx where "kx = \<lfloor>log 2 x\<rfloor>"
  define ky where "ky = \<lfloor>log 2 y\<rfloor>"
  have bx: "2 powr of_int kx \<le> x" "x < 2 powr of_int (kx + 1)"
    using binade_of [OF xpos] by (simp_all add: kx_def)
  have by': "2 powr of_int ky \<le> y" "y < 2 powr of_int (ky + 1)"
    using binade_of [OF ypos] by (simp_all add: ky_def)
  have "log 2 x \<le> log 2 y" using xpos assms(2) by simp
  then have kk: "kx \<le> ky" unfolding kx_def ky_def by (rule floor_mono)
  show ?thesis
  proof (cases "kx = ky")
    case True
    let ?s = "2 powr of_int (ky - 52) :: real"
    have "x / ?s \<le> y / ?s" using assms(2) by (simp add: divide_right_mono)
    then have "rne (x / ?s) \<le> rne (y / ?s)" by (rule rne_mono)
    then have "(of_int (rne (x / ?s)) :: real) \<le> of_int (rne (y / ?s))" by simp
    then have "of_int (rne (x / ?s)) * ?s \<le> of_int (rne (y / ?s)) * ?s"
      by (intro mult_right_mono) simp_all
    then show ?thesis using fl_binade(1) [OF bx] fl_binade(1) [OF by'] True by simp
  next
    case False
    with kk have "kx + 1 \<le> ky" by simp
    then have "(2::real) powr of_int (kx + 1) \<le> 2 powr of_int ky" by simp
    with fl_binade(3) [OF bx] fl_binade(2) [OF by'] show ?thesis by linarith
  qed
qed

lemma fl_pow2 [simp]: "fl (2 ^ n) = 2 ^ n"
  using round_to_exact [of 1 53 "int n"] by (simp add: fl_def powr_realpow)

lemma fl_inv_pow2 [simp]: "fl (1 / 2 ^ n) = 1 / 2 ^ n"
  using round_to_exact [of 1 53 "- int n"] by (simp add: fl_def powr_minus_divide powr_realpow)


lemma fl_idem [simp]: "fl (fl x) = fl x"
proof (cases "x = 0")
  case True
  then show ?thesis by simp
next
  case False
  define k where "k = \<lfloor>log 2 \<bar>x\<bar>\<rfloor>"
  let ?s = "2 powr of_int (k - 52) :: real"
  let ?n = "rne (x / ?s)"
  have spos: "0 < ?s" by simp
  have r: "fl x = of_int ?n * ?s" using False by (simp add: fl_def round_to_def Let_def k_def)
  have ax: "0 < \<bar>x\<bar>" using False by simp
  have b: "2 powr of_int k \<le> \<bar>x\<bar>" "\<bar>x\<bar> < 2 powr of_int (k + 1)"
    using binade_of [OF ax] by (simp_all add: k_def)
  have k2: "2 powr of_int (k + 1) = 2 ^ 53 * ?s"
    by (simp add: powr_diff powr_add powr_realpow [symmetric])
  have "\<bar>x\<bar> < 2 ^ 53 * ?s" using b(2) by (simp only: k2)
  then have "\<bar>x\<bar> / ?s < 2 ^ 53" using spos by (simp only: pos_divide_less_eq)
  moreover have "\<bar>x / ?s\<bar> = \<bar>x\<bar> / ?s" using spos by (simp add: abs_divide)
  ultimately have "\<bar>x / ?s\<bar> \<le> 2 ^ 53" by simp
  then have "x / ?s \<le> 2 ^ 53 \<and> - (2 ^ 53) \<le> x / ?s"
    unfolding abs_le_iff by (metis minus_le_iff)
  then have q: "x / ?s \<le> of_int (2 ^ 53)" "of_int (- (2 ^ 53)) \<le> x / ?s" by simp_all
  have nb: "?n \<le> 2 ^ 53" "- (2 ^ 53) \<le> ?n"
    using rne_le_int [OF q(1)] rne_ge_int [OF q(2)] by simp_all
  show ?thesis
  proof (cases "\<bar>?n\<bar> < 2 ^ 53")
    case True
    then have "round_to 53 (of_int ?n * ?s) = of_int ?n * ?s" by (rule round_to_exact)
    then have "fl (of_int ?n * ?s) = of_int ?n * ?s" by (simp only: fl_def)
    then show ?thesis by (simp only: r)
  next
    case False
    with nb have "?n = 2 ^ 53 \<or> ?n = - (2 ^ 53)" by linarith
    then have "of_int ?n * ?s = 2 ^ 53 * ?s \<or> of_int ?n * ?s = - (2 ^ 53 * ?s)" by auto
    then have "fl x = 2 powr of_int (k + 1) \<or> fl x = - (2 powr of_int (k + 1))"
      by (simp only: r k2)
    then have c: "fl x = of_int 1 * 2 powr of_int (k + 1) \<or> fl x = of_int (- 1) * 2 powr of_int (k + 1)"
      by simp
    have e1: "fl (of_int 1 * 2 powr of_int (k + 1)) = of_int 1 * 2 powr of_int (k + 1)"
      unfolding fl_def by (rule round_to_exact) simp
    have e2: "fl (of_int (- 1) * 2 powr of_int (k + 1)) = of_int (- 1) * 2 powr of_int (k + 1)"
      unfolding fl_def by (rule round_to_exact) simp
    from c show ?thesis
    proof
      assume a: "fl x = of_int 1 * 2 powr of_int (k + 1)"
      show ?thesis unfolding a by (rule e1)
    next
      assume a: "fl x = of_int (- 1) * 2 powr of_int (k + 1)"
      show ?thesis unfolding a by (rule e2)
    qed
  qed
qed

lemma rne_0 [simp]: "rne 0 = 0"
  by (simp add: rne_def)

lemma f64_0 [simp]: "f64 0 = Num 0"
  by (simp add: f64_def)

lemma f64_fl:
  assumes "1 / 2 ^ 1022 \<le> \<bar>x\<bar>" "\<bar>x\<bar> \<le> 2 ^ 1023"
  shows "f64 x = Num (fl x)"
proof -
  have "\<bar>fl x\<bar> \<le> \<bar>x\<bar> + \<bar>x\<bar> / 2 ^ 53" using fl_err [of x] by linarith
  also have "\<dots> \<le> 2 ^ 1023 + 2 ^ 1023 / 2 ^ 53"
    using assms(2) by (intro add_mono divide_right_mono) simp_all
  also have "\<dots> < 2 ^ 1024" by simp
  finally have "\<not> 2 ^ 1024 \<le> \<bar>round_to 53 x\<bar>" by (simp add: fl_def)
  moreover have "\<not> \<bar>x\<bar> < 1 / 2 ^ 1022" using assms(1) by simp
  ultimately show ?thesis unfolding f64_def Let_def fl_def by (simp only: if_False)
qed

lemma f64_of_int: "\<bar>n\<bar> < 2 ^ 53 \<Longrightarrow> f64 (of_int n) = Num (of_int n)"
proof (cases "n = 0")
  case True
  then show ?thesis by simp
next
  case False
  assume b: "\<bar>n\<bar> < 2 ^ 53"
  have "1 \<le> \<bar>n\<bar>" using False by simp
  then have "(1::real) \<le> \<bar>of_int n\<bar>" by (metis of_int_1_le_iff of_int_abs)
  then have lo: "1 / 2 ^ 1022 \<le> \<bar>of_int n :: real\<bar>" by (rule order_trans [rotated]) simp
  have "(of_int \<bar>n\<bar> :: real) < of_int (2 ^ 53)" using b by (simp only: of_int_less_iff)
  then have "\<bar>of_int n :: real\<bar> \<le> 2 ^ 53" by simp
  then have hi: "\<bar>of_int n :: real\<bar> \<le> 2 ^ 1023" by (rule order_trans) simp
  show ?thesis using f64_fl [OF lo hi] fl_of_int [OF b] by simp
qed

lemma f64_1 [simp]: "f64 1 = Num 1"
  using f64_of_int [of 1] by simp

lemma f64_numeral [simp]: "(numeral w :: int) < 2 ^ 53 \<Longrightarrow> f64 (numeral w) = Num (numeral w)"
  using f64_of_int [of "numeral w"] by simp

lemma grid_0 [simp]: "grid 0"
  unfolding grid_def by (rule exI [of _ 0]) simp

lemma grid_minus: "grid x \<Longrightarrow> grid (- x)"
proof -
  assume "grid x"
  then obtain m :: int where "x = of_int m / 2 ^ 1074" unfolding grid_def by blast
  then have "- x = of_int (- m) / 2 ^ 1074" by simp
  then show ?thesis unfolding grid_def by blast
qed

lemma grid_diff: "grid x \<Longrightarrow> grid y \<Longrightarrow> grid (x - y)"
proof -
  assume "grid x" "grid y"
  then obtain m n :: int where "x = of_int m / 2 ^ 1074" "y = of_int n / 2 ^ 1074"
    unfolding grid_def by blast
  then have "x - y = of_int (m - n) / 2 ^ 1074" by (simp add: diff_divide_distrib)
  then show ?thesis unfolding grid_def by blast
qed

lemma round_to_grid:
  assumes "1 / 2 ^ 1022 \<le> \<bar>x\<bar>"
  shows "grid (round_to 53 x)"
proof -
  have "(0::real) < 1 / 2 ^ 1022" by simp
  then have ax: "0 < \<bar>x\<bar>" using assms by (rule less_le_trans)
  then have nz: "x \<noteq> 0" by auto
  define k where "k = \<lfloor>log 2 \<bar>x\<bar>\<rfloor>"
  have "2 powr of_int (- 1022) \<le> \<bar>x\<bar>" using assms by (simp add: powr_minus_divide)
  then have "of_int (- 1022) \<le> log 2 \<bar>x\<bar>" using ax by (simp add: le_log_iff)
  then have "- 1022 \<le> k" unfolding k_def by (simp add: le_floor_iff)
  then have "k - 52 = int (nat (k + 1022)) - 1074" by simp
  then obtain d :: nat where d: "k - 52 = int d - 1074" by blast
  define n where "n = rne (x / 2 powr of_int (k - 52))"
  have r: "round_to 53 x = of_int n * 2 powr of_int (k - 52)"
    using nz by (simp add: round_to_def Let_def k_def n_def)
  have p: "2 powr of_int (k - 52) = (2 ^ d / 2 ^ 1074 :: real)"
    unfolding d by (simp add: powr_diff powr_realpow)
  have "round_to 53 x = of_int (n * 2 ^ d) / 2 ^ 1074" unfolding r p by simp
  then show ?thesis unfolding grid_def by blast
qed

lemma f64_grid: "f64 x = Num y \<Longrightarrow> grid y"
proof (cases "\<bar>x\<bar> < 1 / 2 ^ 1022")
  case True
  assume "f64 x = Num y"
  with True have "y = of_int (rne (x * 2 ^ 1074)) / 2 ^ 1074"
    by (auto simp: f64_def Let_def split: if_splits)
  then show ?thesis unfolding grid_def by blast
next
  case False
  assume "f64 x = Num y"
  with False have "y = round_to 53 x" by (auto simp: f64_def Let_def split: if_splits)
  moreover have "grid (round_to 53 x)" using False by (intro round_to_grid) simp
  ultimately show ?thesis by simp
qed

lemma f64_grid_small:
  assumes "grid d" "\<bar>d\<bar> < 1 / 2 ^ 1022"
  shows "f64 d = Num d"
proof -
  from assms(1) obtain m :: int where m: "d = of_int m / 2 ^ 1074" unfolding grid_def by blast
  then have "d * 2 ^ 1074 = of_int m" by simp
  then have "of_int (rne (d * 2 ^ 1074)) / 2 ^ 1074 = d" by (simp add: m)
  moreover have "(1 / 2 ^ 1022 :: real) \<le> 2 ^ 1024" by simp
  then have "\<not> 2 ^ 1024 \<le> \<bar>d\<bar>" using assms(2) by linarith
  ultimately show ?thesis using assms(2) by (simp add: f64_def Let_def)
qed

lemma f64_positive: "grid d \<Longrightarrow> positive (f64 d) = (0 < d)"
proof (cases "\<bar>d\<bar> < 1 / 2 ^ 1022")
  case True
  assume "grid d"
  then show ?thesis using True by (simp add: f64_grid_small)
next
  case False
  then show ?thesis by (simp add: f64_def Let_def fl_def [symmetric])
qed

lemma f64_truthy: "grid d \<Longrightarrow> truthy (f64 d) = (d \<noteq> 0)"
proof (cases "\<bar>d\<bar> < 1 / 2 ^ 1022")
  case True
  assume "grid d"
  then show ?thesis using True by (simp add: f64_grid_small)
next
  case False
  then have "d \<noteq> 0" by auto
  with False show ?thesis by (simp add: f64_def Let_def fl_def [symmetric])
qed







lemma toFixed4_grid: "grid x \<Longrightarrow> grid (toFixed4 x)"
proof (cases "10 ^ 21 \<le> \<bar>x\<bar>")
  case True
  assume "grid x"
  with True show ?thesis by (simp add: toFixed4_def)
next
  case False
  let ?n = "\<lfloor>\<bar>x\<bar> * 10 ^ 4 + 1 / 2\<rfloor>"
  have n0: "0 \<le> ?n" by simp
  have g: "grid (fl (of_int ?n / 10 ^ 4))"
  proof (cases "?n = 0")
    case True
    then show ?thesis by simp
  next
    case False
    with n0 have "1 \<le> ?n" by linarith
    then have "(1::real) \<le> of_int ?n" by (simp only: of_int_1_le_iff)
    then have "(1 / 10 ^ 4 :: real) \<le> of_int ?n / 10 ^ 4" by (simp add: divide_right_mono)
    moreover have "(1 / 2 ^ 1022 :: real) \<le> 1 / 10 ^ 4" by simp
    ultimately have "(1 / 2 ^ 1022 :: real) \<le> of_int ?n / 10 ^ 4" by (rule order_trans [rotated])
    moreover have "0 \<le> (of_int ?n :: real) / 10 ^ 4" using n0 by simp
    ultimately have "1 / 2 ^ 1022 \<le> \<bar>(of_int ?n :: real) / 10 ^ 4\<bar>" by linarith
    then show ?thesis unfolding fl_def by (rule round_to_grid)
  qed
  have "toFixed4 x = (if x < 0 then - fl (of_int ?n / 10 ^ 4) else fl (of_int ?n / 10 ^ 4))"
    using False unfolding toFixed4_def Let_def by (simp only: if_False)
  then show ?thesis using g grid_minus [OF g] by (cases "x < 0") (simp_all only: if_True if_False)
qed

lemma round4_on_grid: "on_grid v \<Longrightarrow> on_grid (round4 v)"
  by (cases v) (simp_all add: toFixed4_grid)

lemma round4_NaN [simp]: "round4 v = NaN \<longleftrightarrow> v = NaN"
  by (cases v) simp_all


lemma acc_bound_step:
  assumes "0 \<le> s" "s \<le> 2 ^ 310" "fl s = s" "0 \<le> t" "t \<le> 2 ^ 256"
  shows "fl (s + t) \<le> 2 ^ 310"
proof -
  consider "s < 2 ^ 309" | "2 ^ 309 \<le> s" "s < 2 ^ 310" | "s = 2 ^ 310" using assms(2) by linarith
  then show ?thesis
  proof cases
    case 1
    have "s + t \<le> 2 ^ 309 + 2 ^ 256" using 1 assms(5) by linarith
    also have "\<dots> \<le> (2 ^ 310 :: real)" by simp
    finally have "s + t \<le> 2 ^ 310" .
    moreover have "0 \<le> s + t" using assms by simp
    ultimately have "fl (s + t) \<le> fl (2 ^ 310)" by (intro fl_mono)
    then show ?thesis by (simp only: fl_pow2)
  next
    case 2
    have a: "2 powr of_int 309 \<le> s" "s < 2 powr of_int (309 + 1)" using 2 by simp_all
    define m where "m = rne (s / 2 powr of_int (309 - 52))"
    have sm: "s = of_int m * 2 ^ 257" using fl_binade(1) [OF a] assms(3) by (simp add: m_def)
    have "of_int m * 2 ^ 257 < (of_int (2 ^ 53) :: real) * 2 ^ 257" using 2(2) sm by simp
    then have "(of_int m :: real) < of_int (2 ^ 53)" by (simp only: mult_less_cancel_right) simp
    then have "m < 2 ^ 53" by (simp only: of_int_less_iff)
    then have "m \<le> 2 ^ 53 - 1" by simp
    then have "(of_int m :: real) \<le> of_int (2 ^ 53 - 1)" by (simp only: of_int_le_iff)
    then have "of_int m * 2 ^ 257 \<le> (of_int (2 ^ 53 - 1) :: real) * 2 ^ 257"
      by (intro mult_right_mono) simp_all
    then have "s \<le> 2 ^ 310 - 2 ^ 257" using sm by simp
    then have "s + t \<le> 2 ^ 310 - 2 ^ 257 + 2 ^ 256" using assms(5) by linarith
    also have "\<dots> \<le> (2 ^ 310 :: real)" by simp
    finally have "s + t \<le> 2 ^ 310" .
    moreover have "0 \<le> s + t" using assms by simp
    ultimately have "fl (s + t) \<le> fl (2 ^ 310)" by (intro fl_mono)
    then show ?thesis by (simp only: fl_pow2)
  next
    case 3
    have a: "2 powr of_int 310 \<le> s + t" "s + t < 2 powr of_int (310 + 1)"
      using 3 assms(4,5) by simp_all
    have "rne ((s + t) / 2 ^ 258) = 2 ^ 52"
    proof (rule rne_eq)
      have e: "(s + t) / 2 ^ 258 = 2 ^ 52 + t / 2 ^ 258" using 3 by (simp add: add_divide_distrib)
      have "0 \<le> t / 2 ^ 258" using assms(4) by simp
      then show "of_int (2 ^ 52) - 1 / 2 < (s + t) / 2 ^ 258" unfolding e by simp
      have "t / 2 ^ 258 \<le> 2 ^ 256 / 2 ^ 258" using assms(5) by (simp add: divide_right_mono)
      then have "t / 2 ^ 258 \<le> 1 / 4" by simp
      then show "(s + t) / 2 ^ 258 < of_int (2 ^ 52) + 1 / 2" unfolding e by simp
    qed
    then have "fl (s + t) = 2 ^ 52 * 2 ^ 258" using fl_binade(1) [OF a] by simp
    then show ?thesis by simp
  qed
qed

section \<open>Facts about the cosine\<close>

lemma acc_ok_0 [simp]: "acc_ok 0"
  by (simp add: acc_ok_def)

lemma acc_ok_nonneg: "acc_ok s \<Longrightarrow> 0 \<le> s"
proof -
  assume "acc_ok s"
  then have "s = 0 \<or> 1 / 2 ^ 298 \<le> s" by (simp add: acc_ok_def)
  moreover have "(0::real) \<le> 1 / 2 ^ 298" by simp
  ultimately show ?thesis by linarith
qed

lemma acc_add:
  assumes s: "acc_ok s" and t: "t = 0 \<or> 1 / 2 ^ 298 \<le> t" "t \<le> 2 ^ 256"
  shows "f64 (s + t) = Num (fl (s + t))" "acc_ok (fl (s + t))"
    "s \<noteq> 0 \<or> t \<noteq> 0 \<Longrightarrow> fl (s + t) \<noteq> 0"
proof -
  have s0: "0 \<le> s" using s by (rule acc_ok_nonneg)
  have small: "(0::real) \<le> 1 / 2 ^ 298" by simp
  have t0: "0 \<le> t" using t(1) small by linarith
  have sb: "s \<le> 2 ^ 310" "fl s = s" "s = 0 \<or> 1 / 2 ^ 298 \<le> s" using s by (simp_all add: acc_ok_def)
  have up: "fl (s + t) \<le> 2 ^ 310" using s0 sb(1,2) t0 t(2) by (rule acc_bound_step)
  show "s \<noteq> 0 \<or> t \<noteq> 0 \<Longrightarrow> fl (s + t) \<noteq> 0" using s0 t0 by auto
  show "f64 (s + t) = Num (fl (s + t))" "acc_ok (fl (s + t))"
  proof -
    have "f64 (s + t) = Num (fl (s + t)) \<and> acc_ok (fl (s + t))"
    proof (cases "s + t = 0")
      case True
      then show ?thesis by simp
    next
      case False
      then have "s \<noteq> 0 \<or> t \<noteq> 0" by auto
      then have lo: "1 / 2 ^ 298 \<le> s + t" using sb(3) t(1) s0 t0 by linarith
      have "(1 / 2 ^ 1022 :: real) \<le> 1 / 2 ^ 298" by simp
      then have a: "1 / 2 ^ 1022 \<le> \<bar>s + t\<bar>" using lo by linarith
      have "s + t \<le> 2 ^ 310 + 2 ^ 256" using sb(1) t(2) by linarith
      also have "\<dots> \<le> (2 ^ 1023 :: real)" by simp
      finally have b: "\<bar>s + t\<bar> \<le> 2 ^ 1023" using s0 t0 by simp
      have e: "f64 (s + t) = Num (fl (s + t))" using f64_fl [OF a b] by simp
      have "fl (1 / 2 ^ 298) \<le> fl (s + t)" using lo by (intro fl_mono) simp_all
      then have "1 / 2 ^ 298 \<le> fl (s + t)" by (simp only: fl_inv_pow2)
      then have "acc_ok (fl (s + t))" using up by (simp add: acc_ok_def)
      with e show ?thesis by simp
    qed
    then show "f64 (s + t) = Num (fl (s + t))" "acc_ok (fl (s + t))" by simp_all
  qed
qed

lemma sq_ok:
  assumes "finite32 (Num x)"
  shows "f64 (x * x) = Num (fl (x * x))"
    "fl (x * x) = 0 \<or> 1 / 2 ^ 298 \<le> fl (x * x)" "fl (x * x) \<le> 2 ^ 256"
    "x \<noteq> 0 \<Longrightarrow> fl (x * x) \<noteq> 0"
proof -
  show "x \<noteq> 0 \<Longrightarrow> fl (x * x) \<noteq> 0" by simp
  have "f64 (x * x) = Num (fl (x * x))
      \<and> (fl (x * x) = 0 \<or> 1 / 2 ^ 298 \<le> fl (x * x)) \<and> fl (x * x) \<le> 2 ^ 256"
  proof (cases "x = 0")
    case True
    then show ?thesis by simp
  next
    case False
    with assms have b: "1 / 2 ^ 149 \<le> \<bar>x\<bar>" "\<bar>x\<bar> \<le> 2 ^ 128" by simp_all
    have xx: "x * x = \<bar>x\<bar> * \<bar>x\<bar>" by simp
    have "(1 / 2 ^ 149) * (1 / 2 ^ 149) \<le> \<bar>x\<bar> * \<bar>x\<bar>" using b(1) by (intro mult_mono) simp_all
    then have lo: "1 / 2 ^ 298 \<le> x * x" by (simp only: xx) simp
    have "\<bar>x\<bar> * \<bar>x\<bar> \<le> 2 ^ 128 * 2 ^ 128" using b(2) by (intro mult_mono) simp_all
    then have hi: "x * x \<le> 2 ^ 256" by (simp only: xx) simp
    have "(1 / 2 ^ 1022 :: real) \<le> 1 / 2 ^ 298" by simp
    then have a: "1 / 2 ^ 1022 \<le> \<bar>x * x\<bar>" using lo by linarith
    have "(2 ^ 256 :: real) \<le> 2 ^ 1023" by simp
    then have c: "\<bar>x * x\<bar> \<le> 2 ^ 1023" using hi lo by simp
    have e: "f64 (x * x) = Num (fl (x * x))" using f64_fl [OF a c] by simp
    have "fl (1 / 2 ^ 298) \<le> fl (x * x)" using lo by (intro fl_mono) simp_all
    then have l: "1 / 2 ^ 298 \<le> fl (x * x)" by (simp only: fl_inv_pow2)
    have "fl (x * x) \<le> fl (2 ^ 256)" using hi by (intro fl_mono) simp_all
    then have "fl (x * x) \<le> 2 ^ 256" by (simp only: fl_pow2)
    with e l show ?thesis by simp
  qed
  then show "f64 (x * x) = Num (fl (x * x))"
    "fl (x * x) = 0 \<or> 1 / 2 ^ 298 \<le> fl (x * x)" "fl (x * x) \<le> 2 ^ 256" by simp_all
qed

lemma mul_zero [simp]: "num_mul (Num 0) (Num y) = Num 0" "num_mul (Num x) (Num 0) = Num 0"
  by simp_all

lemma add_zero_zero [simp]: "num_add (Num 0) (Num 0) = Num 0"
  by simp

lemma fold_cos_self:
  assumes "\<forall>x \<in> set v. finite32 x" "acc_ok s"
  shows "\<exists>n. fold cos_step (zip v v) (Num s, Num s, Num s) = (Num n, Num n, Num n) \<and> acc_ok n
     \<and> (s \<noteq> 0 \<or> (\<exists>x \<in> set v. x \<noteq> Num 0) \<longrightarrow> n \<noteq> 0)"
  using assms
proof (induction v arbitrary: s)
  case Nil
  then show ?case by simp
next
  case (Cons a v)
  from Cons.prems(1) obtain x where a: "a = Num x" "finite32 (Num x)" by (cases a) auto
  let ?t = "fl (x * x)"
  let ?s = "fl (s + ?t)"
  note sq = sq_ok [OF a(2)]
  note ad = acc_add [OF Cons.prems(2) sq(2) sq(3)]
  have step: "fold cos_step (zip (a # v) (a # v)) (Num s, Num s, Num s)
      = fold cos_step (zip v v) (Num ?s, Num ?s, Num ?s)"
    by (simp add: cos_step_def a(1) sq(1) ad(1))
  from Cons.IH [OF _ ad(2)] Cons.prems(1) obtain n where
    n: "fold cos_step (zip v v) (Num ?s, Num ?s, Num ?s) = (Num n, Num n, Num n)" "acc_ok n"
       "?s \<noteq> 0 \<or> (\<exists>x \<in> set v. x \<noteq> Num 0) \<longrightarrow> n \<noteq> 0"
    by auto
  have "s \<noteq> 0 \<or> (\<exists>y \<in> set (a # v). y \<noteq> Num 0) \<longrightarrow> n \<noteq> 0"
  proof
    assume "s \<noteq> 0 \<or> (\<exists>y \<in> set (a # v). y \<noteq> Num 0)"
    then consider "s \<noteq> 0" | "x \<noteq> 0" | "\<exists>y \<in> set v. y \<noteq> Num 0" using a(1) by auto
    then show "n \<noteq> 0"
    proof cases
      case 1
      then have "?s \<noteq> 0" using ad(3) by blast
      with n(3) show ?thesis by blast
    next
      case 2
      then have "?t \<noteq> 0" by (rule sq(4))
      then have "?s \<noteq> 0" using ad(3) by blast
      with n(3) show ?thesis by blast
    next
      case 3
      with n(3) show ?thesis by blast
    qed
  qed
  with step n(1,2) show ?case by auto
qed

lemma fold_cos_zero_left:
  assumes "\<forall>(x, y) \<in> set zs. x = Num 0 \<and> finite32 y" "acc_ok s"
  shows "\<exists>n. fold cos_step zs (Num 0, Num 0, Num s) = (Num 0, Num 0, Num n) \<and> acc_ok n"
  using assms
proof (induction zs arbitrary: s)
  case Nil
  then show ?case by simp
next
  case (Cons z zs)
  from Cons.prems(1) obtain y where z: "z = (Num 0, Num y)" "finite32 (Num y)"
    by (cases z; cases "snd z") auto
  note sq = sq_ok [OF z(2)]
  note ad = acc_add [OF Cons.prems(2) sq(2) sq(3)]
  have step: "fold cos_step (z # zs) (Num 0, Num 0, Num s)
      = fold cos_step zs (Num 0, Num 0, Num (fl (s + fl (y * y))))"
    unfolding z(1) by (simp add: cos_step_def sq(1) ad(1))
  from Cons.IH [OF _ ad(2)] Cons.prems(1) show ?case unfolding step by auto
qed

lemma fold_cos_zero_right:
  assumes "\<forall>(x, y) \<in> set zs. y = Num 0 \<and> finite32 x" "acc_ok s"
  shows "\<exists>n. fold cos_step zs (Num 0, Num s, Num 0) = (Num 0, Num n, Num 0) \<and> acc_ok n"
  using assms
proof (induction zs arbitrary: s)
  case Nil
  then show ?case by simp
next
  case (Cons z zs)
  from Cons.prems(1) obtain x where z: "z = (Num x, Num 0)" "finite32 (Num x)"
    by (cases z; cases "fst z") auto
  note sq = sq_ok [OF z(2)]
  note ad = acc_add [OF Cons.prems(2) sq(2) sq(3)]
  have step: "fold cos_step (z # zs) (Num 0, Num s, Num 0)
      = fold cos_step zs (Num 0, Num (fl (s + fl (x * x))), Num 0)"
    unfolding z(1) by (simp add: cos_step_def sq(1) ad(1))
  from Cons.IH [OF _ ad(2)] Cons.prems(1) show ?case unfolding step by auto
qed

lemma sqrt_acc:
  assumes "acc_ok n"
  shows "num_sqrt (Num n) = Num (fl (sqrt n))"
    and "n \<noteq> 0 \<Longrightarrow> 1 / 2 ^ 149 \<le> fl (sqrt n) \<and> fl (sqrt n) \<le> 2 ^ 155"
proof -
  have n0: "0 \<le> n" using assms by (rule acc_ok_nonneg)
  have b: "n \<noteq> 0 \<Longrightarrow> 1 / 2 ^ 149 \<le> sqrt n \<and> sqrt n \<le> 2 ^ 155"
  proof -
    assume "n \<noteq> 0"
    with assms have l: "1 / 2 ^ 298 \<le> n" and u: "n \<le> 2 ^ 310" by (simp_all add: acc_ok_def)
    have "1 / 2 ^ 149 \<le> sqrt n" using l by (intro real_le_rsqrt) (simp add: power2_eq_square)
    moreover have "sqrt n \<le> 2 ^ 155" using u n0 by (intro real_le_lsqrt) (simp_all add: power2_eq_square)
    ultimately show ?thesis by simp
  qed
  show "n \<noteq> 0 \<Longrightarrow> 1 / 2 ^ 149 \<le> fl (sqrt n) \<and> fl (sqrt n) \<le> 2 ^ 155"
  proof -
    assume nz: "n \<noteq> 0"
    have "fl (1 / 2 ^ 149) \<le> fl (sqrt n)" using b [OF nz] by (intro fl_mono) simp_all
    then have "1 / 2 ^ 149 \<le> fl (sqrt n)" by (simp only: fl_inv_pow2)
    moreover have "fl (sqrt n) \<le> fl (2 ^ 155)" using b [OF nz] n0 by (intro fl_mono) simp_all
    then have "fl (sqrt n) \<le> 2 ^ 155" by (simp only: fl_pow2)
    ultimately show ?thesis by simp
  qed
  show "num_sqrt (Num n) = Num (fl (sqrt n))"
  proof (cases "n = 0")
    case True
    then show ?thesis by simp
  next
    case False
    have "(1 / 2 ^ 1022 :: real) \<le> 1 / 2 ^ 149" by simp
    then have a: "1 / 2 ^ 1022 \<le> \<bar>sqrt n\<bar>" using b [OF False] by linarith
    have "(2 ^ 155 :: real) \<le> 2 ^ 1023" by simp
    then have c: "\<bar>sqrt n\<bar> \<le> 2 ^ 1023" using b [OF False] n0 by simp
    show ?thesis using f64_fl [OF a c] n0 by simp
  qed
qed

lemma cosine_zero_left:
  assumes "\<forall>x \<in> set a. x = Num 0" "\<forall>y \<in> set b. finite32 y" "length a \<le> length b"
  shows "cosineSimilarity a b = Num 0"
proof -
  have z: "zip a (b @ replicate (length a - length b) NaN) = zip a b" using assms(3) by simp
  have "\<forall>(x, y) \<in> set (zip a b). x = Num 0 \<and> finite32 y"
    using assms(1,2) by (auto dest: set_zip_leftD set_zip_rightD)
  from fold_cos_zero_left [OF this acc_ok_0] obtain n where
    n: "fold cos_step (zip a b) (Num 0, Num 0, Num 0) = (Num 0, Num 0, Num n)" "acc_ok n" by blast
  have "num_sqrt (Num 0) = Num 0" by simp
  then have "num_mul (num_sqrt (Num 0)) (num_sqrt (Num n)) = Num 0"
    by (simp only: sqrt_acc(1) [OF n(2)] mul_zero)
  then show ?thesis unfolding cosineSimilarity_def z n(1) by (simp add: Let_def)
qed

lemma cosine_zero_right:
  assumes "\<forall>y \<in> set b. y = Num 0" "\<forall>x \<in> set a. finite32 x" "length a \<le> length b"
  shows "cosineSimilarity a b = Num 0"
proof -
  have z: "zip a (b @ replicate (length a - length b) NaN) = zip a b" using assms(3) by simp
  have "\<forall>(x, y) \<in> set (zip a b). y = Num 0 \<and> finite32 x"
    using assms(1,2) by (auto dest: set_zip_leftD set_zip_rightD)
  from fold_cos_zero_right [OF this acc_ok_0] obtain n where
    n: "fold cos_step (zip a b) (Num 0, Num 0, Num 0) = (Num 0, Num n, Num 0)" "acc_ok n" by blast
  have "num_sqrt (Num 0) = Num 0" by simp
  then have "num_mul (num_sqrt (Num n)) (num_sqrt (Num 0)) = Num 0"
    by (simp only: sqrt_acc(1) [OF n(2)] mul_zero)
  then show ?thesis unfolding cosineSimilarity_def z n(1) by (simp add: Let_def)
qed

lemma self_quotient_bounds:
  assumes "0 < n"
  defines "c \<equiv> fl (n / fl (fl (sqrt n) * fl (sqrt n)))"
  shows "1 - 1 / 2 ^ 50 \<le> c" "c \<le> 1 + 1 / 2 ^ 50"
proof -
  define u :: real where "u = 1 / 2 ^ 53"
  define r where "r = sqrt n"
  have rpos: "0 < r" using assms(1) by (simp add: r_def)
  have rr: "r * r = n" using assms(1) by (simp add: r_def)
  have s: "r * (1 - u) \<le> fl r" "fl r \<le> r * (1 + u)"
    using fl_bounds [of r r r] rpos by (simp_all add: u_def)
  have s0: "0 \<le> r * (1 - u)" using rpos by (simp add: u_def)
  have p_lo: "(r * (1 - u)) * (r * (1 - u)) \<le> fl r * fl r"
    using s s0 by (intro mult_mono) simp_all
  have p_hi: "fl r * fl r \<le> (r * (1 + u)) * (r * (1 + u))"
    using s s0 by (intro mult_mono) simp_all
  have p0: "0 \<le> (r * (1 - u)) * (r * (1 - u))" by simp
  have q: "(r * (1 - u)) * (r * (1 - u)) * (1 - u) \<le> fl (fl r * fl r)"
          "fl (fl r * fl r) \<le> (r * (1 + u)) * (r * (1 + u)) * (1 + u)"
    using fl_bounds [OF p0 p_lo p_hi] by (simp_all add: u_def)
  have "(r * (1 - u)) * (r * (1 - u)) * (1 - u) = (r * r) * (1 - u) ^ 3"
    by (simp add: power3_eq_cube)
  then have lo_eq: "(r * (1 - u)) * (r * (1 - u)) * (1 - u) = n * (1 - u) ^ 3"
    by (simp only: rr)
  have "(r * (1 + u)) * (r * (1 + u)) * (1 + u) = (r * r) * (1 + u) ^ 3"
    by (simp add: power3_eq_cube)
  then have hi_eq: "(r * (1 + u)) * (r * (1 + u)) * (1 + u) = n * (1 + u) ^ 3"
    by (simp only: rr)
  let ?p = "fl (fl r * fl r)"
  have p: "n * (1 - u) ^ 3 \<le> ?p" "?p \<le> n * (1 + u) ^ 3"
    using q lo_eq hi_eq by simp_all
  have ppos: "0 < ?p"
  proof -
    have "0 < n * (1 - u) ^ 3" using assms(1) by (simp add: u_def)
    with p(1) show ?thesis by linarith
  qed
  have d_lo: "1 / (1 + u) ^ 3 \<le> n / ?p"
  proof -
    have "n / (n * (1 + u) ^ 3) \<le> n / ?p"
      using p(2) ppos assms(1) by (intro divide_left_mono) (simp_all add: u_def)
    then show ?thesis using assms(1) by simp
  qed
  have d_hi: "n / ?p \<le> 1 / (1 - u) ^ 3"
  proof -
    have "n / ?p \<le> n / (n * (1 - u) ^ 3)"
      using p(1) ppos assms(1) by (intro divide_left_mono) (simp_all add: u_def)
    then show ?thesis using assms(1) by simp
  qed
  have d0: "0 \<le> 1 / (1 + u) ^ 3" by (simp add: u_def)
  have cb: "1 / (1 + u) ^ 3 * (1 - u) \<le> c" "c \<le> 1 / (1 - u) ^ 3 * (1 + u)"
    using fl_bounds [OF d0 d_lo d_hi] by (simp_all add: c_def r_def u_def)
  have "1 - 1 / 2 ^ 50 \<le> 1 / (1 + u) ^ 3 * (1 - u)"
    by (simp add: u_def power3_eq_cube divide_simps)
  with cb(1) show "1 - 1 / 2 ^ 50 \<le> c" by linarith
  have "1 / (1 - u) ^ 3 * (1 + u) \<le> 1 + 1 / 2 ^ 50"
    by (simp add: u_def power3_eq_cube divide_simps)
  with cb(2) show "c \<le> 1 + 1 / 2 ^ 50" by linarith
qed

lemma f64_between:
  assumes "l \<le> x" "x \<le> u" "1 / 2 ^ 1022 \<le> l" "u \<le> 2 ^ 1023"
  shows "f64 x = Num (fl x)"
proof -
  have "(0::real) < 1 / 2 ^ 1022" by simp
  then have "0 < x" using assms(1,3) by linarith
  then have "1 / 2 ^ 1022 \<le> \<bar>x\<bar>" "\<bar>x\<bar> \<le> 2 ^ 1023" using assms by simp_all
  then show ?thesis by (rule f64_fl)
qed

lemma cos_finish:
  assumes na: "1 \<le> na" "na \<le> 2 ^ 20" and nb: "1 \<le> nb" "nb \<le> 2 ^ 20"
    and d: "d = 0 \<or> 1 \<le> d" "d \<le> 2 ^ 20"
  shows "(let denom = num_mul (num_sqrt (Num na)) (num_sqrt (Num nb))
          in if denom = Num 0 then Num 0 else num_div (Num d) denom)
         = Num (fl (d / fl (fl (sqrt na) * fl (sqrt nb))))"
proof -
  have sq: "f64 (sqrt n) = Num (fl (sqrt n)) \<and> 1 \<le> fl (sqrt n) \<and> fl (sqrt n) \<le> 2 ^ 10"
    if n: "1 \<le> n" "n \<le> 2 ^ 20" for n :: real
  proof -
    have a: "1 \<le> sqrt n" using n(1) by simp
    have b: "sqrt n \<le> 2 ^ 10" using n by (intro real_le_lsqrt) (simp_all add: power2_eq_square)
    have c: "f64 (sqrt n) = Num (fl (sqrt n))" using a b by (rule f64_between) simp_all
    have "fl 1 \<le> fl (sqrt n)" using a by (intro fl_mono) simp_all
    then have e: "1 \<le> fl (sqrt n)" by simp
    have "fl (sqrt n) \<le> fl (2 ^ 10)" using a b by (intro fl_mono) simp_all
    then have "fl (sqrt n) \<le> 2 ^ 10" by (simp only: fl_pow2)
    with c e show ?thesis by simp
  qed
  let ?ra = "fl (sqrt na)" and ?rb = "fl (sqrt nb)"
  note sa = sq [OF na] and sb = sq [OF nb]
  have p1: "1 * 1 \<le> ?ra * ?rb" using sa sb by (intro mult_mono) simp_all
  have "?ra * ?rb \<le> 2 ^ 10 * 2 ^ 10" using sa sb by (intro mult_mono) simp_all
  then have p2: "?ra * ?rb \<le> 2 ^ 20" by simp
  have pe: "f64 (?ra * ?rb) = Num (fl (?ra * ?rb))" using p1 p2 by (intro f64_between [where l = 1 and u = "2 ^ 20"]) simp_all
  let ?p = "fl (?ra * ?rb)"
  have "fl 1 \<le> ?p" using p1 by (intro fl_mono) simp_all
  then have q1: "1 \<le> ?p" by simp
  have "?p \<le> fl (2 ^ 20)" using p1 p2 by (intro fl_mono) simp_all
  then have q2: "?p \<le> 2 ^ 20" by (simp only: fl_pow2)
  have den: "num_mul (num_sqrt (Num na)) (num_sqrt (Num nb)) = Num ?p"
    using sa sb pe na(1) nb(1) by simp
  have nz: "?p \<noteq> 0" using q1 by linarith
  have "f64 (d / ?p) = Num (fl (d / ?p))"
  proof (cases "d = 0")
    case True
    then show ?thesis by simp
  next
    case False
    with d have d1: "1 \<le> d" by simp
    have ppos: "0 < ?p" using q1 by linarith
    have "1 / 2 ^ 20 \<le> d / ?p" using d1 q1 q2 ppos by (intro frac_le) simp_all
    moreover have "d / ?p \<le> 2 ^ 20 / 1" using d(2) d1 q1 by (intro frac_le) simp_all
    ultimately show ?thesis by (intro f64_between [where l = "1 / 2 ^ 20" and u = "2 ^ 20"]) simp_all
  qed
  then show ?thesis unfolding Let_def den using nz by simp
qed

lemma cosine_ones: "cosineSimilarity [Num 1, Num 1] [Num 1, Num 1] = Num (1 - 1 / 2 ^ 52)"
proof -
  have f: "fold cos_step (zip [Num 1, Num 1] ([Num 1, Num 1] @ replicate (length [Num 1, Num 1] - length [Num 1, Num 1]) NaN))
      (Num 0, Num 0, Num 0) = (Num 2, Num 2, Num 2)"
    by (simp add: cos_step_def)
  have "cosineSimilarity [Num 1, Num 1] [Num 1, Num 1] = Num (fl (2 / fl (fl (sqrt 2) * fl (sqrt 2))))"
    unfolding cosineSimilarity_def f prod.case
    by (rule cos_finish) simp_all
  also have "\<dots> = Num (1 - 1 / 2 ^ 52)"
    by (simp only: fl_sq_sqrt2 fl_quot)
  finally show ?thesis .
qed

lemma cosine_infinite: "cosineSimilarity [Num 0] [PInf] = NaN" "cosineSimilarity [PInf] [PInf] = NaN"
  by (simp_all add: cosineSimilarity_def cos_step_def)

lemma cosine_short: "cosineSimilarity [Num 0, Num 0] [Num 1] = NaN"
  by (simp add: cosineSimilarity_def cos_step_def)

lemma cosine_self:
  assumes "\<forall>x \<in> set v. finite32 x" "\<exists>x \<in> set v. x \<noteq> Num 0"
  shows "\<exists>c. cosineSimilarity v v = Num c \<and> \<bar>c - 1\<bar> \<le> 1 / 2 ^ 50 \<and> round4 (Num c) = Num 1"
proof -
  have z: "zip v (v @ replicate (length v - length v) NaN) = zip v v" by simp
  from fold_cos_self [OF assms(1) acc_ok_0] assms(2) obtain n where
    n: "fold cos_step (zip v v) (Num 0, Num 0, Num 0) = (Num n, Num n, Num n)" "acc_ok n" "n \<noteq> 0"
    by auto
  have npos: "0 < n" using acc_ok_nonneg [OF n(2)] n(3) by simp
  have nb: "1 / 2 ^ 298 \<le> n" "n \<le> 2 ^ 310" using n(2,3) by (simp_all add: acc_ok_def)
  let ?r = "fl (sqrt n)"
  note sr = sqrt_acc [OF n(2)]
  have rb: "1 / 2 ^ 149 \<le> ?r" "?r \<le> 2 ^ 155" using sr(2) [OF n(3)] by simp_all
  have "(1 / 2 ^ 149) * (1 / 2 ^ 149) \<le> ?r * ?r" using rb(1) by (intro mult_mono) simp_all
  then have p1: "1 / 2 ^ 298 \<le> ?r * ?r" by simp
  have r0: "0 \<le> ?r" using rb(1) by (rule order_trans [rotated]) simp
  have "?r * ?r \<le> 2 ^ 155 * 2 ^ 155" using rb(2) r0 by (intro mult_mono) simp_all
  then have p2: "?r * ?r \<le> 2 ^ 310" by simp
  let ?d = "fl (?r * ?r)"
  have pe: "f64 (?r * ?r) = Num ?d" using p1 p2 by (rule f64_between) simp_all
  have "fl (1 / 2 ^ 298) \<le> ?d" using p1 by (intro fl_mono) simp_all
  then have d1: "1 / 2 ^ 298 \<le> ?d" by (simp only: fl_inv_pow2)
  have "(0::real) < 1 / 2 ^ 298" by simp
  then have dpos: "0 < ?d" using d1 by (rule less_le_trans)
  have "?d \<le> fl (2 ^ 310)" using p2 p1 by (intro fl_mono) simp_all
  then have d2: "?d \<le> 2 ^ 310" by (simp only: fl_pow2)
  have den: "num_mul (num_sqrt (Num n)) (num_sqrt (Num n)) = Num ?d"
    by (simp only: sr(1) num_mul.simps pe)
  have "(1 / 2 ^ 298) / 2 ^ 310 \<le> n / ?d" using nb(1) d2 dpos by (intro frac_le) simp_all
  moreover have "n / ?d \<le> 2 ^ 310 / (1 / 2 ^ 298)" using nb(2) d1 npos by (intro frac_le) simp_all
  ultimately have qe: "f64 (n / ?d) = Num (fl (n / ?d))" by (rule f64_between) simp_all
  define c where "c = fl (n / ?d)"
  have cs: "cosineSimilarity v v = Num c"
    unfolding cosineSimilarity_def z n(1) prod.case Let_def den
    using dpos qe by (simp add: c_def)
  have b: "1 - 1 / 2 ^ 50 \<le> c" "c \<le> 1 + 1 / 2 ^ 50"
    unfolding c_def by (rule self_quotient_bounds [OF npos])+
  have "toFixed4 c = fl (of_int 10000 / 10 ^ 4)"
    using b by (intro toFixed4_eval) simp_all
  then have "round4 (Num c) = Num 1" by simp
  moreover have "\<bar>c - 1\<bar> \<le> 1 / 2 ^ 50" using b by linarith
  ultimately show ?thesis using cs by blast
qed

lemma num_div_grid: "num_div a b = Num c \<Longrightarrow> b \<noteq> Num 0 \<Longrightarrow> grid c"
  by (cases a; cases b) (auto split: if_splits dest: f64_grid)

lemma cosine_on_grid: "on_grid (cosineSimilarity a b)"
proof (cases "cosineSimilarity a b")
  case (Num c)
  obtain d na nb where f: "fold cos_step (zip a (b @ replicate (length a - length b) NaN)) (Num 0, Num 0, Num 0) = (d, na, nb)"
    by (metis prod_cases3)
  show ?thesis
  proof (cases "num_mul (num_sqrt na) (num_sqrt nb) = Num 0")
    case True
    then have "cosineSimilarity a b = Num 0" by (simp add: cosineSimilarity_def f)
    then show ?thesis by simp
  next
    case False
    then have "cosineSimilarity a b = num_div d (num_mul (num_sqrt na) (num_sqrt nb))"
      by (simp add: cosineSimilarity_def f)
    with Num False have "grid c" using num_div_grid by metis
    with Num show ?thesis by simp
  qed
qed simp_all

section \<open>Facts about sorting and slicing\<close>

lemma set_insert_cmp [simp]: "set (insert_cmp cmp x ys) = insert x (set ys)"
  by (induction ys) auto

lemma set_sort_cmp [simp]: "set (sort_cmp cmp xs) = set xs"
  by (induction xs) (auto simp: sort_cmp_def)

lemma length_insert_cmp [simp]: "length (insert_cmp cmp x ys) = Suc (length ys)"
  by (induction ys) auto

lemma length_sort_cmp [simp]: "length (sort_cmp cmp xs) = length xs"
  by (induction xs) (auto simp: sort_cmp_def)

lemma sorted_insert_cmp:
  assumes first: "\<And>a b. P a \<Longrightarrow> P b \<Longrightarrow> positive (cmp a b) \<Longrightarrow> R b a"
    and stay: "\<And>a b. P a \<Longrightarrow> P b \<Longrightarrow> \<not> positive (cmp a b) \<Longrightarrow> R a b"
    and trans: "\<And>a b c. P a \<Longrightarrow> P b \<Longrightarrow> P c \<Longrightarrow> R a b \<Longrightarrow> R b c \<Longrightarrow> R a c"
    and x: "P x" and ys: "\<forall>y \<in> set ys. P y" and sorted: "sorted_wrt R ys"
  shows "sorted_wrt R (insert_cmp cmp x ys)"
  using ys sorted
proof (induction ys)
  case Nil
  then show ?case by simp
next
  case (Cons y ys)
  show ?case
  proof (cases "positive (cmp x y)")
    case True
    have "R y x" using first x Cons.prems(1) True by simp
    moreover have "sorted_wrt R (insert_cmp cmp x ys)" using Cons by simp
    ultimately show ?thesis using True Cons.prems by auto
  next
    case False
    have xy: "R x y" using stay x Cons.prems(1) False by simp
    have "\<forall>z \<in> set ys. R x z"
    proof
      fix z assume z: "z \<in> set ys"
      then have "R y z" using Cons.prems(2) by simp
      with xy show "R x z" using trans [of x y z] x Cons.prems(1) z by simp
    qed
    with xy False Cons.prems show ?thesis by simp
  qed
qed

lemma sorted_sort_cmp:
  assumes first: "\<And>a b. P a \<Longrightarrow> P b \<Longrightarrow> positive (cmp a b) \<Longrightarrow> R b a"
    and stay: "\<And>a b. P a \<Longrightarrow> P b \<Longrightarrow> \<not> positive (cmp a b) \<Longrightarrow> R a b"
    and trans: "\<And>a b c. P a \<Longrightarrow> P b \<Longrightarrow> P c \<Longrightarrow> R a b \<Longrightarrow> R b c \<Longrightarrow> R a c"
    and xs: "\<forall>x \<in> set xs. P x"
  shows "sorted_wrt R (sort_cmp cmp xs)"
  using xs
proof (induction xs)
  case Nil
  then show ?case by (simp add: sort_cmp_def)
next
  case (Cons x xs)
  have step: "sort_cmp cmp (x # xs) = insert_cmp cmp x (sort_cmp cmp xs)"
    by (simp add: sort_cmp_def)
  have "sorted_wrt R (insert_cmp cmp x (sort_cmp cmp xs))"
  proof (rule sorted_insert_cmp [where P = P])
    show "\<And>a b. P a \<Longrightarrow> P b \<Longrightarrow> positive (cmp a b) \<Longrightarrow> R b a" by (rule first)
    show "\<And>a b. P a \<Longrightarrow> P b \<Longrightarrow> \<not> positive (cmp a b) \<Longrightarrow> R a b" by (rule stay)
    show "\<And>a b c. P a \<Longrightarrow> P b \<Longrightarrow> P c \<Longrightarrow> R a b \<Longrightarrow> R b c \<Longrightarrow> R a c" by (rule trans)
    show "P x" using Cons.prems by simp
    show "\<forall>y \<in> set (sort_cmp cmp xs). P y" using Cons.prems by simp
    show "sorted_wrt R (sort_cmp cmp xs)" using Cons by simp
  qed
  with step show ?case by simp
qed

lemma mset_insert_cmp [simp]: "mset (insert_cmp cmp x ys) = add_mset x (mset ys)"
  by (induction ys) auto


lemma filter_insert_cmp:
  assumes "\<forall>y \<in> set ys. P x \<and> P y \<longrightarrow> \<not> positive (cmp x y)"
  shows "filter P (insert_cmp cmp x ys) = (if P x then x # filter P ys else filter P ys)"
  using assms by (induction ys) auto

lemma filter_sort_cmp:
  assumes "\<And>x y. P x \<Longrightarrow> P y \<Longrightarrow> \<not> positive (cmp x y)"
  shows "filter P (sort_cmp cmp xs) = filter P xs"
proof (induction xs)
  case Nil
  then show ?case by (simp add: sort_cmp_def)
next
  case (Cons x xs)
  have step: "sort_cmp cmp (x # xs) = insert_cmp cmp x (sort_cmp cmp xs)"
    by (simp add: sort_cmp_def)
  have "filter P (insert_cmp cmp x (sort_cmp cmp xs))
      = (if P x then x # filter P (sort_cmp cmp xs) else filter P (sort_cmp cmp xs))"
    by (rule filter_insert_cmp) (simp add: assms)
  with Cons step show ?case by simp
qed

lemma set_slice0: "set (slice0 n xs) \<subseteq> set xs"
  by (auto simp: slice0_def dest: in_set_takeD)

lemma length_slice0: "length (slice0 n xs) \<le> length xs"
  by (simp add: slice0_def)

lemma length_slice0_end: "length (slice0 n xs) = min (slice_end n (length xs)) (length xs)"
  by (simp add: slice0_def min.commute)

lemma slice_end_le: "slice_end n len \<le> len"
proof (cases n)
  case (Num x)
  have "nat (int len + k) \<le> len" if "k < 0" for k :: int using that by simp
  then show ?thesis by (simp add: slice_end_def Num Let_def)
qed (simp_all add: slice_end_def)

lemma length_slice0_topN:
  assumes "num_ge n (Num 0)"
  shows "num_ge n (Num (of_nat (length (slice0 n xs))))"
proof (cases n)
  case (Num x)
  with assms have x: "0 \<le> x" by (simp add: num_ge_def)
  then have "slice_end n (length xs) \<le> nat \<lfloor>x\<rfloor>" by (simp add: slice_end_def Num Let_def)
  then have "length (slice0 n xs) \<le> nat \<lfloor>x\<rfloor>" by (simp add: slice0_def)
  moreover have "0 \<le> \<lfloor>x\<rfloor>" using x by simp
  ultimately have "int (length (slice0 n xs)) \<le> \<lfloor>x\<rfloor>" by linarith
  then have "real (length (slice0 n xs)) \<le> x" by (simp add: le_floor_iff)
  then show ?thesis by (simp add: Num num_ge_def)
next
  case PInf
  then show ?thesis by (simp add: num_ge_def)
next
  case NInf
  with assms show ?thesis by (simp add: num_ge_def)
next
  case NaN
  with assms show ?thesis by (simp add: num_ge_def)
qed

lemma sorted_wrt_take: "sorted_wrt R xs \<Longrightarrow> sorted_wrt R (take k xs)"
proof -
  assume "sorted_wrt R xs"
  then have "sorted_wrt R (take k xs @ drop k xs)" by simp
  then show ?thesis unfolding sorted_wrt_append by simp
qed

lemma sorted_wrt_slice0: "sorted_wrt R xs \<Longrightarrow> sorted_wrt R (slice0 n xs)"
  by (simp add: slice0_def sorted_wrt_take)

lemma prefix_filter_take: "prefix (filter P (take k xs)) (filter P xs)"
proof -
  have "filter P xs = filter P (take k xs) @ filter P (drop k xs)"
    by (metis append_take_drop_id filter_append)
  then show ?thesis by (simp add: prefix_def)
qed

lemma prefix_filter_slice0: "prefix (filter P (slice0 n xs)) (filter P xs)"
  by (simp add: slice0_def prefix_filter_take)

lemma num_less_irrefl [simp]: "\<not> num_less a a"
  by (cases a) simp_all

lemma num_less_trans: "num_less a b \<Longrightarrow> num_less b c \<Longrightarrow> num_less a c"
  by (cases a; cases b; cases c) simp_all

lemma num_less_asym: "num_less a b \<Longrightarrow> \<not> num_less b a"
  by (cases a; cases b) simp_all

lemma num_less_total: "a \<noteq> NaN \<Longrightarrow> b \<noteq> NaN \<Longrightarrow> num_less a b \<or> a = b \<or> num_less b a"
  by (cases a; cases b) auto

lemma num_less_NaN_left [simp]: "\<not> num_less NaN b"
  by (cases b) simp_all

lemma num_less_NaN_right [simp]: "\<not> num_less a NaN"
  by (cases a) simp_all

lemma positive_sub:
  assumes "a \<noteq> NaN" "b \<noteq> NaN" "on_grid a" "on_grid b"
  shows "positive (num_sub b a) = num_less a b"
  using assms by (cases a; cases b) (simp_all add: f64_positive grid_diff)

lemma truthy_sub:
  assumes "a \<noteq> NaN" "b \<noteq> NaN" "on_grid a" "on_grid b"
  shows "truthy (num_sub b a) = (a \<noteq> b)"
  using assms by (cases a; cases b) (auto simp: f64_truthy grid_diff)

lemma positive_compareMatches:
  fixes a b :: ScoredMatch
  assumes "cosineSimilarityOf a \<noteq> NaN" "cosineSimilarityOf b \<noteq> NaN"
    "on_grid (cosineSimilarityOf a)" "on_grid (cosineSimilarityOf b)"
  shows "positive (compareMatches a b) \<longleftrightarrow>
     num_less (cosineSimilarityOf a) (cosineSimilarityOf b)
     \<or> (cosineSimilarityOf a = cosineSimilarityOf b
         \<and> (matchScore a < matchScore b
             \<or> (matchScore a = matchScore b \<and> totalSkills a < totalSkills b)))"
proof (cases "cosineSimilarityOf a = cosineSimilarityOf b")
  case True
  then have "\<not> truthy (num_sub (cosineSimilarityOf b) (cosineSimilarityOf a))"
    using truthy_sub [OF assms] by simp
  with True show ?thesis by (auto simp: compareMatches_def Let_def)
next
  case False
  then have "truthy (num_sub (cosineSimilarityOf b) (cosineSimilarityOf a))"
    using truthy_sub [OF assms] by simp
  with False show ?thesis using positive_sub [OF assms] by (simp add: compareMatches_def Let_def)
qed

lemma positive_compareCosine:
  fixes a b :: ScoredMatch
  assumes "cosineSimilarityOf a \<noteq> NaN" "cosineSimilarityOf b \<noteq> NaN"
    "on_grid (cosineSimilarityOf a)" "on_grid (cosineSimilarityOf b)"
  shows "positive (compareCosine a b) \<longleftrightarrow> num_less (cosineSimilarityOf a) (cosineSimilarityOf b)"
  using positive_sub [OF assms] by (simp add: compareCosine_def)

lemma sorted_three_keys:
  assumes "\<forall>m \<in> set ms. cosineSimilarityOf m \<noteq> NaN \<and> on_grid (cosineSimilarityOf m)"
  shows "sorted_wrt by_three_keys (sort_cmp compareMatches ms)"
proof (rule sorted_sort_cmp [where P = "\<lambda>m. cosineSimilarityOf m \<noteq> NaN \<and> on_grid (cosineSimilarityOf m)"])
  fix a b :: ScoredMatch
  assume a: "cosineSimilarityOf a \<noteq> NaN \<and> on_grid (cosineSimilarityOf a)"
    and b: "cosineSimilarityOf b \<noteq> NaN \<and> on_grid (cosineSimilarityOf b)"
  have p: "positive (compareMatches a b) \<longleftrightarrow>
     num_less (cosineSimilarityOf a) (cosineSimilarityOf b)
     \<or> (cosineSimilarityOf a = cosineSimilarityOf b
         \<and> (matchScore a < matchScore b
             \<or> (matchScore a = matchScore b \<and> totalSkills a < totalSkills b)))"
    using a b by (intro positive_compareMatches) simp_all
  show "positive (compareMatches a b) \<Longrightarrow> by_three_keys b a"
    using a b unfolding p by_three_keys_def by auto
  show "\<not> positive (compareMatches a b) \<Longrightarrow> by_three_keys a b"
    using a b num_less_total [of "cosineSimilarityOf a" "cosineSimilarityOf b"]
    unfolding p by_three_keys_def by auto
next
  fix a b c
  assume "by_three_keys a b" "by_three_keys b c"
  then show "by_three_keys a c"
    unfolding by_three_keys_def using num_less_trans by (smt (verit) order.strict_trans order_trans le_less)
next
  show "\<forall>x \<in> set ms. cosineSimilarityOf x \<noteq> NaN \<and> on_grid (cosineSimilarityOf x)" by (rule assms)
qed

lemma sorted_similarity:
  assumes "\<forall>m \<in> set ms. cosineSimilarityOf m \<noteq> NaN \<and> on_grid (cosineSimilarityOf m)"
  shows "sorted_wrt by_similarity (sort_cmp compareCosine ms)"
proof (rule sorted_sort_cmp [where P = "\<lambda>m. cosineSimilarityOf m \<noteq> NaN \<and> on_grid (cosineSimilarityOf m)"])
  fix a b :: ScoredMatch
  assume a: "cosineSimilarityOf a \<noteq> NaN \<and> on_grid (cosineSimilarityOf a)"
    and b: "cosineSimilarityOf b \<noteq> NaN \<and> on_grid (cosineSimilarityOf b)"
  have p: "positive (compareCosine a b) \<longleftrightarrow> num_less (cosineSimilarityOf a) (cosineSimilarityOf b)"
    using a b by (intro positive_compareCosine) simp_all
  show "positive (compareCosine a b) \<Longrightarrow> by_similarity b a"
    using a b num_less_asym unfolding p by_similarity_def num_ge_def by blast
  show "\<not> positive (compareCosine a b) \<Longrightarrow> by_similarity a b"
    using a b unfolding p by_similarity_def num_ge_def by blast
next
  fix a b c :: ScoredMatch
  assume a: "cosineSimilarityOf a \<noteq> NaN \<and> on_grid (cosineSimilarityOf a)"
    and b: "cosineSimilarityOf b \<noteq> NaN \<and> on_grid (cosineSimilarityOf b)"
    and c: "cosineSimilarityOf c \<noteq> NaN \<and> on_grid (cosineSimilarityOf c)"
    and "by_similarity a b" "by_similarity b c"
  then show "by_similarity a c"
    unfolding by_similarity_def num_ge_def
    using num_less_total [of "cosineSimilarityOf b" "cosineSimilarityOf a"]
      num_less_total [of "cosineSimilarityOf c" "cosineSimilarityOf b"] num_less_trans
    by (metis num_less_irrefl)
next
  show "\<forall>x \<in> set ms. cosineSimilarityOf x \<noteq> NaN \<and> on_grid (cosineSimilarityOf x)" by (rule assms)
qed

lemma same_keys_compareMatches:
  "same_keys c s t a \<Longrightarrow> same_keys c s t b \<Longrightarrow> \<not> positive (compareMatches a b)"
  by (cases c) (auto simp: same_keys_def compareMatches_def Let_def)

lemma same_cosine_compareCosine:
  "cosineSimilarityOf (a :: ScoredMatch) = c \<Longrightarrow> cosineSimilarityOf (b :: ScoredMatch) = c
     \<Longrightarrow> \<not> positive (compareCosine a b)"
  by (cases c) (auto simp: compareCosine_def)

section \<open>Facts about the ranked matches\<close>

lemma scoreUser_match:
  "set (matchedSkills (scoreUser qv vocab nq u)) \<subseteq> set (skills u)
   \<and> matchScore (scoreUser qv vocab nq u) = length (matchedSkills (scoreUser qv vocab nq u))
   \<and> userId (scoreUser qv vocab nq u) = userId u
   \<and> skills (scoreUser qv vocab nq u) = skills u"
  by (simp add: scoreUser_def Let_def)

lemma scoreEmbedded_match:
  "set (matchedSkills (scoreEmbedded qs qv (u, v))) \<subseteq> set (skills u)
   \<and> matchScore (scoreEmbedded qs qv (u, v)) = length (matchedSkills (scoreEmbedded qs qv (u, v)))
   \<and> userId (scoreEmbedded qs qv (u, v)) = userId u
   \<and> skills (scoreEmbedded qs qv (u, v)) = skills u"
  by (simp add: scoreEmbedded_def Let_def)

lemma rank_subset_scored:
  "set (rankUsersBySkills qs users topN minScore) \<subseteq> set (scoredUsers qs users)"
proof (cases "qs = [] \<or> users = []")
  case True
  then show ?thesis by (auto simp: rankUsersBySkills_def)
next
  case False
  then have "rankUsersBySkills qs users topN minScore =
      slice0 topN (sort_cmp compareMatches (filter (\<lambda>m. num_ge (cosineSimilarityOf m) minScore) (scoredUsers qs users)))"
    by (simp add: rankUsersBySkills_def)
  then show ?thesis using set_slice0 [of topN] by fastforce
qed

lemma scoredUsers_matched: "m \<in> set (scoredUsers qs users) \<Longrightarrow> matched_of users m"
  unfolding scoredUsers_def Let_def matched_of_def
  using scoreUser_match by fastforce

lemma embeddedScored_matched:
  assumes "embeddedScored p st qs users = Inr ms" "m \<in> set ms"
  shows "matched_of users m"
proof -
  from assms obtain qv uvs querySet where
    ms: "ms = map (scoreEmbedded querySet qv) (zip users uvs)"
    by (auto simp: embeddedScored_def Let_def split: sum.splits list.splits)
  with assms(2) obtain u v where uv: "(u, v) \<in> set (zip users uvs)" "m = scoreEmbedded querySet qv (u, v)"
    by auto
  then have "u \<in> set users" by (auto dest: set_zip_leftD)
  with uv(2) scoreEmbedded_match [of querySet qv u v] show ?thesis
    unfolding matched_of_def by blast
qed

lemma rankEmb_subset_scored:
  assumes "rankUsersWithEmbeddings p st qs users topN minScore = Inr ms"
  shows "ms = [] \<or> (\<exists>sc. embeddedScored p st qs users = Inr sc \<and> set ms \<subseteq> set sc)"
proof (cases "qs = [] \<or> users = []")
  case True
  with assms show ?thesis by (auto simp: rankUsersWithEmbeddings_def)
next
  case False
  with assms obtain sc where sc: "embeddedScored p st qs users = Inr sc"
    and ms: "ms = slice0 topN (sort_cmp compareCosine (filter (\<lambda>m. num_ge (cosineSimilarityOf m) minScore) sc))"
    by (auto simp: rankUsersWithEmbeddings_def split: sum.splits)
  have "set ms \<subseteq> set sc" unfolding ms using set_slice0 [of topN] by fastforce
  with sc show ?thesis by blast
qed

lemma length_scoredUsers [simp]: "length (scoredUsers qs users) = length users"
  by (simp add: scoredUsers_def Let_def)

lemma length_embeddedScored: "embeddedScored p st qs users = Inr sc \<Longrightarrow> length sc \<le> length users"
  by (auto simp: embeddedScored_def Let_def split: sum.splits list.splits)

lemma kept_not_NaN: "kept t m \<Longrightarrow> cosineSimilarityOf m \<noteq> NaN"
  by (simp add: kept_def num_ge_def)

lemma scoredUsers_on_grid: "m \<in> set (scoredUsers qs users) \<Longrightarrow> on_grid (cosineSimilarityOf m)"
  by (auto simp: scoredUsers_def Let_def scoreUser_def round4_on_grid cosine_on_grid)

lemma embeddedScored_on_grid:
  assumes "embeddedScored p st qs users = Inr sc" "m \<in> set sc"
  shows "on_grid (cosineSimilarityOf m)"
proof -
  from assms obtain qv uvs querySet where
    ms: "sc = map (scoreEmbedded querySet qv) (zip users uvs)"
    by (auto simp: embeddedScored_def Let_def split: sum.splits list.splits)
  with assms(2) obtain u v where "m = scoreEmbedded querySet qv (u, v)" by auto
  then show ?thesis
    by (simp add: scoreEmbedded_def Let_def embeddingCosine_def round4_on_grid cosine_on_grid)
qed

lemma rank_binary_eq:
  "querySkills \<noteq> [] \<Longrightarrow> rankUsersBySkills querySkills users topN minScore
     = slice0 topN (sort_cmp compareMatches (filter (kept minScore) (scoredUsers querySkills users)))"
  by (cases "users = []") (simp_all add: rankUsersBySkills_def kept_def [abs_def] scoredUsers_def slice0_def sort_cmp_def)

lemma rank_binary_empty: "rankUsersBySkills [] users topN minScore = []"
  by (simp add: rankUsersBySkills_def)

lemma kept_sorted_three:
  "sorted_wrt by_three_keys (sort_cmp compareMatches (filter (kept minScore) (scoredUsers qs users)))"
  by (rule sorted_three_keys) (auto simp: kept_not_NaN scoredUsers_on_grid)

lemma rank_binary_sorted:
  "sorted_wrt by_three_keys (rankUsersBySkills qs users topN minScore)"
proof (cases "qs = []")
  case True
  then show ?thesis by (simp add: rank_binary_empty)
next
  case False
  then show ?thesis by (simp add: rank_binary_eq sorted_wrt_slice0 kept_sorted_three)
qed

lemma rank_binary_length:
  "length (rankUsersBySkills qs users topN minScore) \<le> length users
   \<and> (num_ge topN (Num 0) \<longrightarrow> num_ge topN (Num (of_nat (length (rankUsersBySkills qs users topN minScore)))))"
proof (cases "qs = []")
  case True
  then show ?thesis by (simp add: rank_binary_empty)
next
  case False
  let ?k = "sort_cmp compareMatches (filter (kept minScore) (scoredUsers qs users))"
  have "length (slice0 topN ?k) \<le> length ?k" by (rule length_slice0)
  also have "\<dots> \<le> length users"
    using length_filter_le [of "kept minScore" "scoredUsers qs users"] by simp
  finally have "length (slice0 topN ?k) \<le> length users" .
  then show ?thesis using False length_slice0_topN [of topN ?k] by (simp add: rank_binary_eq)
qed

lemma rank_binary_stable:
  "prefix (filter (same_keys c s t) (rankUsersBySkills qs users topN minScore))
          (filter (same_keys c s t) (scoredUsers qs users))"
proof (cases "qs = []")
  case True
  then show ?thesis by (simp add: rank_binary_empty)
next
  case False
  let ?k = "filter (kept minScore) (scoredUsers qs users)"
  have "prefix (filter (same_keys c s t) (slice0 topN (sort_cmp compareMatches ?k)))
               (filter (same_keys c s t) (sort_cmp compareMatches ?k))"
    by (rule prefix_filter_slice0)
  also have "filter (same_keys c s t) (sort_cmp compareMatches ?k) = filter (same_keys c s t) ?k"
    by (rule filter_sort_cmp) (rule same_keys_compareMatches)
  also have "\<dots> = (if num_ge c minScore then filter (same_keys c s t) (scoredUsers qs users) else [])"
    by (auto simp: filter_empty_conv same_keys_def kept_def intro: filter_cong)
  finally show ?thesis using False by (simp add: rank_binary_eq split: if_splits)
qed

lemma rank_embedded_eq:
  assumes "rankUsersWithEmbeddings p st qs users topN minScore = Inr ms" "qs \<noteq> []" "users \<noteq> []"
  shows "\<exists>sc. embeddedScored p st qs users = Inr sc
     \<and> ms = slice0 topN (sort_cmp compareCosine (filter (kept minScore) sc))"
  using assms by (auto simp: rankUsersWithEmbeddings_def kept_def [abs_def] split: sum.splits)

lemma rank_embedded_empty:
  assumes "rankUsersWithEmbeddings p st qs users topN minScore = Inr ms" "qs = [] \<or> users = []"
  shows "ms = []"
  using assms by (auto simp: rankUsersWithEmbeddings_def)

lemma rank_embedded_sorted:
  assumes "rankUsersWithEmbeddings p st qs users topN minScore = Inr ms"
  shows "sorted_wrt by_similarity ms \<and> length ms \<le> length users
     \<and> (num_ge topN (Num 0) \<longrightarrow> num_ge topN (Num (of_nat (length ms))))"
proof (cases "qs = [] \<or> users = []")
  case True
  then have "ms = []" using assms rank_embedded_empty by blast
  then show ?thesis using length_slice0_topN [of topN "[] :: ScoredMatch list"] by (simp add: slice0_def)
next
  case False
  with rank_embedded_eq [OF assms] obtain sc where sc: "embeddedScored p st qs users = Inr sc"
    and ms: "ms = slice0 topN (sort_cmp compareCosine (filter (kept minScore) sc))" by auto
  let ?kept = "filter (kept minScore) sc"
  have "\<forall>m \<in> set ?kept. cosineSimilarityOf m \<noteq> NaN \<and> on_grid (cosineSimilarityOf m)"
    using embeddedScored_on_grid [OF sc] by (auto simp: kept_not_NaN)
  then have "sorted_wrt by_similarity (sort_cmp compareCosine ?kept)" by (rule sorted_similarity)
  then have s: "sorted_wrt by_similarity ms" unfolding ms by (rule sorted_wrt_slice0)
  have "length ms \<le> length (sort_cmp compareCosine ?kept)" unfolding ms by (rule length_slice0)
  also have "\<dots> \<le> length sc" by simp
  also have "\<dots> \<le> length users" using sc by (rule length_embeddedScored)
  finally have l: "length ms \<le> length users" .
  have "num_ge topN (Num 0) \<longrightarrow> num_ge topN (Num (of_nat (length ms)))"
    unfolding ms using length_slice0_topN [of topN] by blast
  with s l show ?thesis by simp
qed

lemma rank_embedded_stable:
  assumes "rankUsersWithEmbeddings p st qs users topN minScore = Inr ms"
    "embeddedScored p st qs users = Inr sc"
  shows "prefix (filter (\<lambda>m. cosineSimilarityOf m = c) ms) (filter (\<lambda>m. cosineSimilarityOf m = c) sc)"
proof (cases "qs = [] \<or> users = []")
  case True
  then have "ms = []" using assms(1) rank_embedded_empty by blast
  then show ?thesis by simp
next
  case False
  with rank_embedded_eq [OF assms(1)] assms(2)
  have ms: "ms = slice0 topN (sort_cmp compareCosine (filter (kept minScore) sc))" by auto
  let ?P = "\<lambda>m :: ScoredMatch. cosineSimilarityOf m = c"
  let ?k = "filter (kept minScore) sc"
  have "prefix (filter ?P (slice0 topN (sort_cmp compareCosine ?k))) (filter ?P (sort_cmp compareCosine ?k))"
    by (rule prefix_filter_slice0)
  also have "filter ?P (sort_cmp compareCosine ?k) = filter ?P ?k"
    by (rule filter_sort_cmp) (rule same_cosine_compareCosine)
  also have "\<dots> = (if num_ge c minScore then filter ?P sc else [])"
    by (auto simp: filter_empty_conv kept_def intro: filter_cong)
  finally show ?thesis unfolding ms by (simp split: if_splits)
qed

section \<open>Facts about the embedding matcher\<close>

lemma collect_Inr: "collect rs = Inr vs \<Longrightarrow> rs = map Inr vs"
proof (induction rs arbitrary: vs)
  case Nil
  then show ?case by simp
next
  case (Cons r rs)
  then show ?case by (cases r) (auto split: sum.splits)
qed

lemma embeddedScored_vectors:
  assumes "embeddedScored p st qs users = Inr sc"
  shows "\<exists>qv uvs. fst (generateSkillEmbedding p qs st) = Inr qv
     \<and> map (\<lambda>u. fst (generateSkillEmbedding p (skills u) st)) users = map Inr uvs
     \<and> sc = map (scoreEmbedded (map (\<lambda>s. trim (toLowerCase s)) qs) qv) (zip users uvs)"
proof -
  let ?rs = "map (\<lambda>sk. fst (generateSkillEmbedding p sk st)) (qs # map skills users)"
  from assms obtain vs where c: "collect ?rs = Inr vs"
    by (auto simp: embeddedScored_def split: sum.splits)
  then have rs: "?rs = map Inr vs" by (rule collect_Inr)
  then obtain qv uvs where vs: "vs = qv # uvs" by (cases vs) auto
  from rs vs have q: "fst (generateSkillEmbedding p qs st) = Inr qv"
    and u: "map (\<lambda>u. fst (generateSkillEmbedding p (skills u) st)) users = map Inr uvs"
    by (simp_all add: comp_def)
  from assms c vs have "sc = map (scoreEmbedded (map (\<lambda>s. trim (toLowerCase s)) qs) qv) (zip users uvs)"
    by (simp add: embeddedScored_def Let_def)
  with q u show ?thesis by blast
qed

lemma f32_0 [simp]: "f32 0 = Num 0"
  by (simp add: f32_def)

lemma f32_1 [simp]: "f32 1 = Num 1"
proof -
  have "round_to 24 (of_int 1 * 2 powr of_int 0) = of_int 1 * 2 powr of_int 0"
    by (rule round_to_exact) simp
  then have "round_to 24 1 = 1" by simp
  then show ?thesis by (simp add: f32_def Let_def)
qed

lemma f32_finite32: "f32 x = Num y \<Longrightarrow> finite32 (Num y)"
proof -
  assume r: "f32 x = Num y"
  have up: "\<bar>y\<bar> \<le> 2 ^ 128" using r by (auto simp: f32_def Let_def split: if_splits)
  show ?thesis
  proof (cases "\<bar>x\<bar> < 1 / 2 ^ 126")
    case True
    define m where "m = rne (x * 2 ^ 149)"
    from r True have y: "y = of_int m / 2 ^ 149" by (auto simp: f32_def Let_def m_def split: if_splits)
    show ?thesis
    proof (cases "m = 0")
      case True
      with y show ?thesis by simp
    next
      case False
      then have "1 \<le> \<bar>m\<bar>" by simp
      then have "(1::real) \<le> \<bar>of_int m\<bar>" by (metis of_int_1_le_iff of_int_abs)
      then have "1 / 2 ^ 149 \<le> \<bar>of_int m :: real\<bar> / 2 ^ 149" by (simp add: divide_right_mono)
      then have "1 / 2 ^ 149 \<le> \<bar>y\<bar>" by (simp add: y)
      with up show ?thesis by simp
    qed
  next
    case False
    with r have y: "y = round_to 24 x" by (auto simp: f32_def Let_def split: if_splits)
    have "\<bar>y - x\<bar> \<le> \<bar>x\<bar> / 2 ^ 24" unfolding y by (rule round_to_err)
    then have "\<bar>x\<bar> - \<bar>x\<bar> / 2 ^ 24 \<le> \<bar>y\<bar>" by linarith
    moreover have "1 / 2 ^ 126 - (1 / 2 ^ 126) / 2 ^ 24 \<le> \<bar>x\<bar> - \<bar>x\<bar> / 2 ^ 24"
      using False by (simp add: field_simps)
    moreover have "(1 / 2 ^ 149 :: real) \<le> 1 / 2 ^ 126 - (1 / 2 ^ 126) / 2 ^ 24" by simp
    ultimately have "1 / 2 ^ 149 \<le> \<bar>y\<bar>" by linarith
    with up show ?thesis by simp
  qed
qed

lemma toFloat32_finite32: "is_finite (toFloat32 v) \<Longrightarrow> finite32 (toFloat32 v)"
  by (cases v; cases "toFloat32 v") (auto dest: f32_finite32)

lemma embeddingCosine_zeros:
  assumes "length qv \<le> 1536" "\<forall>v \<in> set qv. is_finite (toFloat32 v)"
  shows "embeddingCosine qv (replicate 1536 (Num 0)) = Num 0"
  unfolding embeddingCosine_def
proof (rule cosine_zero_right)
  show "\<forall>y \<in> set (map toFloat32 (replicate 1536 (Num 0))). y = Num 0" by simp
  show "\<forall>x \<in> set (map toFloat32 qv). finite32 x" using assms(2) by (auto intro: toFloat32_finite32)
  show "length (map toFloat32 qv) \<le> length (map toFloat32 (replicate 1536 (Num 0)))"
    using assms(1) by simp
qed

lemma generate_empty: "generateSkillEmbedding p [] st = (Inr (replicate 1536 (Num 0)), st)"
  by (simp add: generateSkillEmbedding_def)

lemma no_skills_score:
  assumes sc: "embeddedScored p st qs users = Inr sc"
    and qv: "fst (generateSkillEmbedding p qs st) = Inr qv"
    and i: "i < length users" "skills (users ! i) = []"
  shows "i < length sc \<and> userId (sc ! i) = userId (users ! i)
     \<and> cosineSimilarityOf (sc ! i) = round4 (embeddingCosine qv (replicate 1536 (Num 0)))"
proof -
  from embeddedScored_vectors [OF sc] qv obtain uvs where
    u: "map (\<lambda>u. fst (generateSkillEmbedding p (skills u) st)) users = map Inr uvs"
    and s: "sc = map (scoreEmbedded (map (\<lambda>s. trim (toLowerCase s)) qs) qv) (zip users uvs)"
    by auto
  from u have len: "length uvs = length users" by (metis length_map)
  from u i(1) have "fst (generateSkillEmbedding p (skills (users ! i)) st) = Inr (uvs ! i)"
    by (metis len nth_map)
  with i(2) have z: "uvs ! i = replicate 1536 (Num 0)" by (simp add: generate_empty)
  have il: "i < length sc" using s len i(1) by simp
  have "sc ! i = scoreEmbedded (map (\<lambda>s. trim (toLowerCase s)) qs) qv (users ! i, uvs ! i)"
    using s len i(1) by simp
  then have "cosineSimilarityOf (sc ! i) = round4 (embeddingCosine qv (replicate 1536 (Num 0)))"
    and "userId (sc ! i) = userId (users ! i)"
    by (simp_all add: scoreEmbedded_def Let_def z)
  with il show ?thesis by simp
qed

lemma no_skills_scores_zero:
  assumes sc: "embeddedScored p st qs users = Inr sc"
    and qv: "fst (generateSkillEmbedding p qs st) = Inr qv" "length qv \<le> 1536"
      "\<forall>v \<in> set qv. is_finite (toFloat32 v)"
    and i: "i < length users" "skills (users ! i) = []"
  shows "i < length sc \<and> userId (sc ! i) = userId (users ! i) \<and> cosineSimilarityOf (sc ! i) = Num 0"
  using no_skills_score [OF sc qv(1) i] embeddingCosine_zeros [OF qv(2,3)] by simp

lemma f32_big: "f32 (10 ^ 39) = PInf"
proof -
  have "\<bar>round_to 24 (10 ^ 39) - 10 ^ 39\<bar> \<le> \<bar>10 ^ 39\<bar> / 2 ^ 24" by (rule round_to_err)
  then have "10 ^ 39 - 10 ^ 39 / 2 ^ 24 \<le> round_to 24 (10 ^ 39)" by simp
  moreover have "(2 ^ 128 :: real) \<le> 10 ^ 39 - 10 ^ 39 / 2 ^ 24" by simp
  ultimately have "2 ^ 128 \<le> \<bar>round_to 24 (10 ^ 39)\<bar>" by linarith
  then show ?thesis by (simp add: f32_def Let_def)
qed

lemma fold_fixed: "f x st = st \<Longrightarrow> fold f (replicate k x) st = st"
  by (induction k) simp_all

lemma replicate_1536: "replicate 1536 x = x # replicate 1535 x"
proof -
  have "(1536::nat) = Suc 1535" by simp
  then show ?thesis by (simp only: replicate.simps)
qed

lemma replicate_1537: "replicate 1537 x = replicate 1536 x @ [x]"
proof -
  have "(1537::nat) = Suc 1536" by simp
  then have "replicate 1537 x = x # replicate 1536 x" by (simp only: replicate.simps)
  then show ?thesis by (simp only: replicate_append_same)
qed

lemma cos_big_zeros: "embeddingCosine big_vector (replicate 1536 (Num 0)) = NaN"
proof -
  have a: "map toFloat32 big_vector = PInf # replicate 1535 (Num 0)"
    unfolding big_vector_def by (simp only: list.map toFloat32.simps f32_big map_replicate f32_0)
  have b: "map toFloat32 (replicate 1536 (Num 0)) = Num 0 # replicate 1535 (Num 0)"
    by (simp only: replicate_1536 list.map toFloat32.simps map_replicate f32_0)
  have z: "zip (PInf # replicate 1535 (Num 0))
      ((Num 0 # replicate 1535 (Num 0)) @ replicate (length (PInf # replicate 1535 (Num 0))
         - length (Num 0 # replicate 1535 (Num 0))) NaN)
      = (PInf, Num 0) # replicate 1535 (Num 0, Num 0)"
    by (simp add: zip_replicate)
  have s: "cos_step (PInf, Num 0) (Num 0, Num 0, Num 0) = (NaN, PInf, Num 0)"
    by (simp add: cos_step_def)
  have f: "fold cos_step (replicate 1535 (Num 0, Num 0)) (NaN, PInf, Num 0) = (NaN, PInf, Num 0)"
    by (rule fold_fixed) (simp add: cos_step_def)
  have "fold cos_step ((PInf, Num 0) # replicate 1535 (Num 0, Num 0)) (Num 0, Num 0, Num 0)
      = (NaN, PInf, Num 0)"
    by (simp only: fold_simps s f)
  then show ?thesis
    unfolding embeddingCosine_def cosineSimilarity_def a b z by simp
qed

lemma cos_long_zeros:
  "embeddingCosine (replicate 1537 (Num 0)) (replicate 1536 (Num 0)) = NaN"
proof -
  have a: "map toFloat32 (replicate 1537 (Num 0)) = replicate 1536 (Num 0) @ [Num 0]"
    by (simp only: replicate_1537 map_append list.map toFloat32.simps map_replicate f32_0)
  have b: "map toFloat32 (replicate 1536 (Num 0)) = replicate 1536 (Num 0)"
    by (simp only: toFloat32.simps map_replicate f32_0)
  have z: "zip (replicate 1536 (Num 0) @ [Num 0])
      (replicate 1536 (Num 0) @ replicate (length (replicate 1536 (Num 0) @ [Num 0])
         - length (replicate 1536 (Num 0))) NaN)
      = replicate 1536 (Num 0, Num 0) @ [(Num 0, NaN)]"
    by (simp add: zip_replicate)
  have f: "fold cos_step (replicate 1536 (Num 0, Num 0)) (Num 0, Num 0, Num 0) = (Num 0, Num 0, Num 0)"
    by (rule fold_fixed) (simp add: cos_step_def)
  have s: "cos_step (Num 0, NaN) (Num 0, Num 0, Num 0) = (NaN, Num 0, NaN)"
    by (simp add: cos_step_def)
  have "fold cos_step (replicate 1536 (Num 0, Num 0) @ [(Num 0, NaN)]) (Num 0, Num 0, Num 0)
      = (NaN, Num 0, NaN)"
    by (simp only: fold_append comp_apply f fold_simps s)
  then show ?thesis
    unfolding embeddingCosine_def cosineSimilarity_def a b z by simp
qed

section \<open>Worked examples of the similarity ranker\<close>

lemma sqrt3_bounds: "1.7320508 \<le> sqrt 3" "sqrt 3 \<le> 1.7320509"
  by (rule real_le_rsqrt, simp add: power2_eq_square) (rule real_le_lsqrt, simp_all add: power2_eq_square)

lemma c2_bounds: "0.81649 \<le> fl (2 / fl (fl (sqrt 2) * fl (sqrt 3)))" "fl (2 / fl (fl (sqrt 2) * fl (sqrt 3))) \<le> 0.81650"
proof -
  have s3: "1.7320507 \<le> fl (sqrt 3) \<and> fl (sqrt 3) \<le> 1.7320510"
    by (rule fl_between [OF _ sqrt3_bounds]) simp_all
  have s2: "1.4142135 \<le> fl (sqrt 2)" "fl (sqrt 2) \<le> 1.4142136"
    by (simp_all add: fl_sqrt2)
  have p: "2.4494894 \<le> fl (sqrt 2) * fl (sqrt 3)" "fl (sqrt 2) * fl (sqrt 3) \<le> 2.4494902"
  proof -
    have "1.4142135 * 1.7320507 \<le> fl (sqrt 2) * fl (sqrt 3)"
      using s2 s3 by (intro mult_mono) simp_all
    moreover have "2.4494894 \<le> (1.4142135 * 1.7320507 :: real)" by simp
    ultimately show "2.4494894 \<le> fl (sqrt 2) * fl (sqrt 3)" by (rule order_trans [rotated])
    have "fl (sqrt 2) * fl (sqrt 3) \<le> 1.4142136 * 1.7320510"
      using s2 s3 by (intro mult_mono) simp_all
    moreover have "(1.4142136 * 1.7320510 :: real) \<le> 2.4494902" by simp
    ultimately show "fl (sqrt 2) * fl (sqrt 3) \<le> 2.4494902" by (rule order_trans)
  qed
  have d: "2.4494893 \<le> fl (fl (sqrt 2) * fl (sqrt 3)) \<and> fl (fl (sqrt 2) * fl (sqrt 3)) \<le> 2.4494903"
    by (rule fl_between [OF _ p]) simp_all
  have q: "0.816496 \<le> 2 / fl (fl (sqrt 2) * fl (sqrt 3))" "2 / fl (fl (sqrt 2) * fl (sqrt 3)) \<le> 0.816497"
    using d by (simp_all add: field_simps)
  have "0.81649 \<le> fl (2 / fl (fl (sqrt 2) * fl (sqrt 3))) \<and> fl (2 / fl (fl (sqrt 2) * fl (sqrt 3))) \<le> 0.81650"
    by (rule fl_between [OF _ q]) simp_all
  then show "0.81649 \<le> fl (2 / fl (fl (sqrt 2) * fl (sqrt 3)))" "fl (2 / fl (fl (sqrt 2) * fl (sqrt 3))) \<le> 0.81650"
    by simp_all
qed

lemma round4_c2: "round4 (Num (fl (2 / fl (fl (sqrt 2) * fl (sqrt 3))))) = Num (fl (8165 / 10000))"
proof -
  have "toFixed4 (fl (2 / fl (fl (sqrt 2) * fl (sqrt 3)))) = fl (of_int 8165 / 10 ^ 4)"
    using c2_bounds by (intro toFixed4_eval) simp_all
  then show ?thesis by simp
qed

lemma c1_bounds: "0.49999 \<le> fl (1 / fl (fl (sqrt 2) * fl (sqrt 2)))" "fl (1 / fl (fl (sqrt 2) * fl (sqrt 2))) \<le> 0.5"
proof -
  have "0.49999 \<le> fl (1 / fl (fl (sqrt 2) * fl (sqrt 2))) \<and> fl (1 / fl (fl (sqrt 2) * fl (sqrt 2))) \<le> 0.5"
    unfolding fl_sq_sqrt2
    by (rule fl_between [where a = "0.499999" and b = "2251799813685248 / 4503599627370497"]) simp_all
  then show "0.49999 \<le> fl (1 / fl (fl (sqrt 2) * fl (sqrt 2)))" "fl (1 / fl (fl (sqrt 2) * fl (sqrt 2))) \<le> 0.5"
    by simp_all
qed

lemma round4_c1: "round4 (Num (fl (1 / fl (fl (sqrt 2) * fl (sqrt 2))))) = Num (1/2)"
proof -
  have "toFixed4 (fl (1 / fl (fl (sqrt 2) * fl (sqrt 2)))) = fl (of_int 5000 / 10 ^ 4)"
    using c1_bounds by (intro toFixed4_eval) simp_all
  then show ?thesis by simp
qed

lemma fl_8165: "0.8 \<le> fl (8165 / 10000)" "fl (8165 / 10000) \<le> 0.9"
proof -
  have "0.8 \<le> fl (8165 / 10000) \<and> fl (8165 / 10000) \<le> 0.9"
    by (rule fl_between [where a = "8165 / 10000" and b = "8165 / 10000"]) simp_all
  then show "0.8 \<le> fl (8165 / 10000)" "fl (8165 / 10000) \<le> 0.9" by simp_all
qed

lemma fl_tenth: "fl (1 / 10) \<le> 0.2"
proof -
  have "0 \<le> fl (1 / 10) \<and> fl (1 / 10) \<le> 0.2"
    by (rule fl_between [where a = "1 / 10" and b = "1 / 10"]) simp_all
  then show ?thesis by simp
qed



lemma fl_3_10: "0 < fl (3 / 10)" "fl (3 / 10) \<le> 1"
proof -
  have "0 \<le> fl (3 / 10) \<and> fl (3 / 10) \<le> 1"
    by (rule fl_between [where a = "3 / 10" and b = "3 / 10"]) simp_all
  then show "fl (3 / 10) \<le> 1" by simp
  show "0 < fl (3 / 10)" by simp
qed

lemma cos_q_u2:
  "cosineSimilarity [Num 1, Num 1, Num 0, Num 0] [Num 1, Num 1, Num 0, Num 1]
     = Num (fl (2 / fl (fl (sqrt 2) * fl (sqrt 3))))"
proof -
  have f: "fold cos_step (zip [Num 1, Num 1, Num 0, Num 0]
      ([Num 1, Num 1, Num 0, Num 1] @ replicate (length [Num 1, Num 1, Num 0, Num 0]
         - length [Num 1, Num 1, Num 0, Num 1]) NaN)) (Num 0, Num 0, Num 0) = (Num 2, Num 2, Num 3)"
    by (simp add: cos_step_def)
  show ?thesis unfolding cosineSimilarity_def f prod.case by (rule cos_finish) simp_all
qed

lemma cos_q_u1:
  "cosineSimilarity [Num 1, Num 1, Num 0, Num 0] [Num 1, Num 0, Num 1, Num 0]
     = Num (fl (1 / fl (fl (sqrt 2) * fl (sqrt 2))))"
proof -
  have f: "fold cos_step (zip [Num 1, Num 1, Num 0, Num 0]
      ([Num 1, Num 0, Num 1, Num 0] @ replicate (length [Num 1, Num 1, Num 0, Num 0]
         - length [Num 1, Num 0, Num 1, Num 0]) NaN)) (Num 0, Num 0, Num 0) = (Num 1, Num 2, Num 2)"
    by (simp add: cos_step_def)
  show ?thesis unfolding cosineSimilarity_def f prod.case by (rule cos_finish) simp_all
qed




lemma cos3_q_u2:
  "cosineSimilarity [Num 1, Num 1, Num 0] [Num 1, Num 1, Num 1]
     = Num (fl (2 / fl (fl (sqrt 2) * fl (sqrt 3))))"
proof -
  have f: "fold cos_step (zip [Num 1, Num 1, Num 0]
      ([Num 1, Num 1, Num 1] @ replicate (length [Num 1, Num 1, Num 0]
         - length [Num 1, Num 1, Num 1]) NaN)) (Num 0, Num 0, Num 0) = (Num 2, Num 2, Num 3)"
    by (simp add: cos_step_def)
  show ?thesis unfolding cosineSimilarity_def f prod.case by (rule cos_finish) simp_all
qed

lemma ex_vocab: "buildVocabulary (ex_query # map skills [ex_u1, ex_u2]) = ex_vocab"
  unfolding ex_query_def ex_u1_def ex_u2_def ex_vocab_def by code_simp

lemma ex_queryVec: "encodeVector ex_query ex_vocab = [Num 1, Num 1, Num 0, Num 0]"
  unfolding ex_query_def ex_vocab_def by code_simp

lemma ex_vec1: "encodeVector (skills ex_u1) ex_vocab = [Num 1, Num 0, Num 1, Num 0]"
  unfolding ex_u1_def ex_vocab_def by code_simp

lemma ex_vec2: "encodeVector (skills ex_u2) ex_vocab = [Num 1, Num 1, Num 0, Num 1]"
  unfolding ex_u2_def ex_vocab_def by code_simp

lemma ex_matched1:
  "filter (\<lambda>s. normaliseSkill s \<in> set (map normaliseSkill ex_query)) (skills ex_u1) = [''React'']"
  unfolding ex_query_def ex_u1_def by code_simp

lemma ex_matched2:
  "filter (\<lambda>s. normaliseSkill s \<in> set (map normaliseSkill ex_query)) (skills ex_u2) = [''React'', ''Node.js'']"
  unfolding ex_query_def ex_u2_def by code_simp


lemma ex_score1: "scoreUser [Num 1, Num 1, Num 0, Num 0] ex_vocab (map normaliseSkill ex_query) ex_u1 = ex_m1"
  unfolding scoreUser_def Let_def ex_vec1 ex_matched1 cos_q_u1 round4_c1
  by (simp add: ex_u1_def ex_m1_def)

lemma ex_score2: "scoreUser [Num 1, Num 1, Num 0, Num 0] ex_vocab (map normaliseSkill ex_query) ex_u2 = ex_m2"
  unfolding scoreUser_def Let_def ex_vec2 ex_matched2 cos_q_u2 round4_c2
  by (simp add: ex_u2_def ex_m2_def)

lemma ex_scored: "scoredUsers ex_query [ex_u1, ex_u2] = [ex_m1, ex_m2]"
  unfolding scoredUsers_def Let_def ex_vocab ex_queryVec
  by (simp add: ex_score1 ex_score2)










lemma ex_kept:
  "kept (Num (fl (1 / 10))) ex_m1" "kept (Num (fl (1 / 10))) ex_m2" "\<not> kept (Num (fl (1 / 10))) ex_m3"
  using fl_tenth fl_8165 by (simp_all add: kept_def num_ge_def ex_m1_def ex_m2_def ex_m3_def not_le)

lemma ex_compare: "positive (compareMatches ex_m1 ex_m2)"
proof -
  have "0.3 \<le> fl (8165 / 10000) - 1 / 2" "fl (8165 / 10000) - 1 / 2 \<le> 0.4" using fl_8165 by simp_all
  then have "f64 (fl (8165 / 10000) - 1 / 2) = Num (fl (fl (8165 / 10000) - 1 / 2))"
    by (rule f64_between) simp_all
  moreover have "0 < fl (8165 / 10000) - 1 / 2" using fl_8165 by simp
  ultimately show ?thesis by (simp add: compareMatches_def ex_m1_def ex_m2_def)
qed

lemma ex_sorted: "sort_cmp compareMatches [ex_m1, ex_m2] = [ex_m2, ex_m1]"
  using ex_compare by (simp add: sort_cmp_def)

lemma ex_rank: "rankUsersBySkills ex_query [ex_u1, ex_u2] (Num 3) (Num (fl (1 / 10))) = [ex_m2, ex_m1]"
proof -
  have q: "ex_query \<noteq> []" by (simp add: ex_query_def)
  show ?thesis
    unfolding rank_binary_eq [OF q] ex_scored
    using ex_kept by (simp add: ex_sorted slice0_def slice_end_def)
qed

lemma ex_rank_minus: "rankUsersBySkills ex_query [ex_u1, ex_u2] (Num (- 1)) (Num (fl (1 / 10))) = [ex_m2]"
proof -
  have q: "ex_query \<noteq> []" by (simp add: ex_query_def)
  have c: "\<lceil>- 1 :: real\<rceil> = - 1" by (rule ceiling_unique) simp_all
  show ?thesis
    unfolding rank_binary_eq [OF q] ex_scored
    using ex_kept by (simp add: ex_sorted slice0_def slice_end_def c)
qed


lemma ex_alone_scored: "scoredUsers ex_query [ex_u2] = [ex_m2]"
proof -
  have v: "buildVocabulary (ex_query # map skills [ex_u2]) = ex_vocab3"
    unfolding ex_query_def ex_u2_def ex_vocab3_def by code_simp
  have q: "encodeVector ex_query ex_vocab3 = [Num 1, Num 1, Num 0]"
    unfolding ex_query_def ex_vocab3_def by code_simp
  have u: "encodeVector (skills ex_u2) ex_vocab3 = [Num 1, Num 1, Num 1]"
    unfolding ex_u2_def ex_vocab3_def by code_simp
  have "scoreUser [Num 1, Num 1, Num 0] ex_vocab3 (map normaliseSkill ex_query) ex_u2 = ex_m2"
    unfolding scoreUser_def Let_def u ex_matched2 cos3_q_u2 round4_c2
    by (simp add: ex_u2_def ex_m2_def)
  then show ?thesis unfolding scoredUsers_def Let_def v q by simp
qed



lemma ex_alone_rank_tenth: "rankUsersBySkills ex_query [ex_u2] n (Num (fl (1 / 10))) = slice0 n [ex_m2]"
proof -
  have q: "ex_query \<noteq> []" by (simp add: ex_query_def)
  show ?thesis
    unfolding rank_binary_eq [OF q] ex_alone_scored
    using ex_kept(2) by (simp add: sort_cmp_def)
qed

section \<open>Worked examples of the embedding ranker\<close>

lemma round4_0: "round4 (Num 0) = Num 0"
  by simp

lemma round4_1: "round4 (Num 1) = Num 1"
  by simp

lemma cos_unit_unit: "embeddingCosine unit_vector unit_vector = Num 1"
proof -
  have a: "map toFloat32 unit_vector = Num 1 # replicate 1535 (Num 0)"
    unfolding unit_vector_def by (simp only: list.map toFloat32.simps map_replicate f32_0 f32_1)
  have z: "zip (Num 1 # replicate 1535 (Num 0))
      ((Num 1 # replicate 1535 (Num 0)) @ replicate (length (Num 1 # replicate 1535 (Num 0))
         - length (Num 1 # replicate 1535 (Num 0))) NaN)
      = (Num 1, Num 1) # replicate 1535 (Num 0, Num 0)"
    by (simp add: zip_replicate)
  have s: "cos_step (Num 1, Num 1) (Num 0, Num 0, Num 0) = (Num 1, Num 1, Num 1)"
    by (simp add: cos_step_def)
  have f: "fold cos_step (replicate 1535 (Num 0, Num 0)) (Num 1, Num 1, Num 1) = (Num 1, Num 1, Num 1)"
    by (rule fold_fixed) (simp add: cos_step_def)
  have g: "fold cos_step ((Num 1, Num 1) # replicate 1535 (Num 0, Num 0)) (Num 0, Num 0, Num 0)
      = (Num 1, Num 1, Num 1)"
    by (simp only: fold_simps s f)
  have "embeddingCosine unit_vector unit_vector = Num (fl (1 / fl (fl (sqrt 1) * fl (sqrt 1))))"
    unfolding embeddingCosine_def cosineSimilarity_def a z g prod.case by (rule cos_finish) simp_all
  then show ?thesis by simp
qed

lemma unit_finite: "length unit_vector \<le> 1536" "\<forall>v \<in> set unit_vector. is_finite (toFloat32 v)"
  by (auto simp add: unit_vector_def)

lemma emb_vectors:
  "sk \<noteq> [] \<Longrightarrow> fst (generateSkillEmbedding emb_provider sk emb_state) = Inr unit_vector"
  by (simp add: generateSkillEmbedding_def emb_state_def emb_provider_def Let_def)

lemma emb_scored:
  "embeddedScored emb_provider emb_state [''Rust''] [emb_u1, emb_u2, emb_u3] = Inr [emb_m1, emb_m2, emb_m3]"
proof -
  have m1: "filter (\<lambda>s. trim (toLowerCase s) \<in> set [trim (toLowerCase ''Rust'')]) (skills emb_u1) = []"
    unfolding emb_u1_def by code_simp
  have m2: "filter (\<lambda>s. trim (toLowerCase s) \<in> set [trim (toLowerCase ''Rust'')]) (skills emb_u2) = [''Rust'']"
    unfolding emb_u2_def by code_simp
  have s1: "scoreEmbedded [trim (toLowerCase ''Rust'')] unit_vector (emb_u1, unit_vector) = emb_m1"
    unfolding scoreEmbedded_def Let_def prod.case m1 cos_unit_unit round4_1
    by (simp add: emb_u1_def emb_m1_def)
  have s2: "scoreEmbedded [trim (toLowerCase ''Rust'')] unit_vector (emb_u2, unit_vector) = emb_m2"
    unfolding scoreEmbedded_def Let_def prod.case m2 cos_unit_unit round4_1
    by (simp add: emb_u2_def emb_m2_def)
  have z: "embeddingCosine unit_vector (replicate 1536 (Num 0)) = Num 0"
    using unit_finite by (rule embeddingCosine_zeros)
  have s3: "scoreEmbedded [trim (toLowerCase ''Rust'')] unit_vector (emb_u3, replicate 1536 (Num 0)) = emb_m3"
    unfolding scoreEmbedded_def Let_def prod.case z round4_0
    by (simp add: emb_u3_def emb_m3_def)
  have v: "map (\<lambda>sk. fst (generateSkillEmbedding emb_provider sk emb_state))
             ([''Rust''] # map skills [emb_u1, emb_u2, emb_u3])
           = [Inr unit_vector, Inr unit_vector, Inr unit_vector, Inr (replicate 1536 (Num 0))]"
    by (simp add: emb_vectors generate_empty emb_u1_def emb_u2_def emb_u3_def)
  show ?thesis unfolding embeddedScored_def v Let_def by (simp add: s1 s2 s3)
qed

lemma emb_rank:
  "rankUsersWithEmbeddings emb_provider emb_state [''Rust''] [emb_u1, emb_u2, emb_u3] (Num 3) (Num (fl (3 / 10)))
     = Inr [emb_m1, emb_m2]"
proof -
  have k: "num_ge (cosineSimilarityOf emb_m1) (Num (fl (3 / 10)))"
    "num_ge (cosineSimilarityOf emb_m2) (Num (fl (3 / 10)))"
    "\<not> num_ge (cosineSimilarityOf emb_m3) (Num (fl (3 / 10)))"
    using fl_3_10 by (simp_all add: num_ge_def emb_m1_def emb_m2_def emb_m3_def not_le)
  have c: "\<not> positive (compareCosine emb_m1 emb_m2)"
    by (simp add: compareCosine_def emb_m1_def emb_m2_def)
  show ?thesis
    unfolding rankUsersWithEmbeddings_def emb_scored
    using k c by (simp add: sort_cmp_def slice0_def slice_end_def)
qed

lemma emb_not_three_keys: "\<not> sorted_wrt by_three_keys [emb_m1, emb_m2]"
  by (simp add: by_three_keys_def emb_m1_def emb_m2_def)

lemma big_vectors:
  "sk \<noteq> [] \<Longrightarrow> fst (generateSkillEmbedding big_provider sk emb_state)
     = Inr big_vector"
  by (simp add: generateSkillEmbedding_def emb_state_def big_provider_def Let_def)

lemma long_vectors:
  "sk \<noteq> [] \<Longrightarrow> fst (generateSkillEmbedding long_provider sk emb_state) = Inr (replicate 1537 (Num 0))"
  by (simp add: generateSkillEmbedding_def emb_state_def long_provider_def Let_def)

lemma big_scored:
  "embeddedScored big_provider emb_state [''Rust''] [emb_u3] = Inr [emb_m3\<lparr>cosineSimilarityOf := NaN\<rparr>]"
proof -
  have s3: "scoreEmbedded [trim (toLowerCase ''Rust'')] big_vector
       (emb_u3, replicate 1536 (Num 0)) = emb_m3\<lparr>cosineSimilarityOf := NaN\<rparr>"
    unfolding scoreEmbedded_def Let_def prod.case cos_big_zeros round4_NaN
    by (simp add: emb_u3_def emb_m3_def)
  have v: "map (\<lambda>sk. fst (generateSkillEmbedding big_provider sk emb_state))
             ([''Rust''] # map skills [emb_u3])
           = [Inr big_vector, Inr (replicate 1536 (Num 0))]"
  proof -
    have "fst (generateSkillEmbedding big_provider [''Rust''] emb_state) = Inr big_vector"
      by (rule big_vectors) simp
    then show ?thesis by (simp add: generate_empty emb_u3_def)
  qed
  show ?thesis unfolding embeddedScored_def v Let_def by (simp add: s3)
qed

lemma long_scored:
  "embeddedScored long_provider emb_state [''Rust''] [emb_u3] = Inr [emb_m3\<lparr>cosineSimilarityOf := NaN\<rparr>]"
proof -
  have s3: "scoreEmbedded [trim (toLowerCase ''Rust'')] (replicate 1537 (Num 0))
       (emb_u3, replicate 1536 (Num 0)) = emb_m3\<lparr>cosineSimilarityOf := NaN\<rparr>"
    unfolding scoreEmbedded_def Let_def prod.case cos_long_zeros round4_NaN
    by (simp add: emb_u3_def emb_m3_def)
  have v: "map (\<lambda>sk. fst (generateSkillEmbedding long_provider sk emb_state))
             ([''Rust''] # map skills [emb_u3])
           = [Inr (replicate 1537 (Num 0)), Inr (replicate 1536 (Num 0))]"
  proof -
    have "fst (generateSkillEmbedding long_provider [''Rust''] emb_state) = Inr (replicate 1537 (Num 0))"
      by (rule long_vectors) simp
    then show ?thesis by (simp add: generate_empty emb_u3_def)
  qed
  show ?thesis unfolding embeddedScored_def v Let_def by (simp add: s3)
qed

lemma big_rank:
  "rankUsersWithEmbeddings big_provider emb_state [''Rust''] [emb_u3] n (Num 0) = Inr []"
  unfolding rankUsersWithEmbeddings_def big_scored
  by (simp add: num_ge_def sort_cmp_def slice0_def slice_end_def emb_u3_def)

lemma long_rank:
  "rankUsersWithEmbeddings long_provider emb_state [''Rust''] [emb_u3] n (Num 0) = Inr []"
  unfolding rankUsersWithEmbeddings_def long_scored
  by (simp add: num_ge_def sort_cmp_def slice0_def slice_end_def emb_u3_def)

section \<open>Facts about the decisions of the rankers\<close>

lemma scoredUsers_ids: "map userId (scoredUsers qs users) = map userId users"
  by (simp add: scoredUsers_def Let_def scoreUser_def comp_def)

lemma scoreEmbedded_id: "userId (scoreEmbedded querySet qv (u, v)) = userId u"
  by (simp add: scoreEmbedded_def Let_def)

lemma embeddedScored_ids:
  assumes "embeddedScored p st qs users = Inr sc"
  shows "map userId sc = map userId users"
proof -
  from embeddedScored_vectors [OF assms] obtain qv uvs where
    u: "map (\<lambda>u. fst (generateSkillEmbedding p (skills u) st)) users = map Inr uvs"
    and s: "sc = map (scoreEmbedded (map (\<lambda>s. trim (toLowerCase s)) qs) qv) (zip users uvs)"
    by auto
  from u have len: "length uvs = length users" by (metis length_map)
  have "map userId (map (scoreEmbedded querySet qv) (zip us vs)) = map userId us"
    if "length vs = length us" for querySet and us :: "UserSkillProfile list" and vs
    using that
  proof (induction us arbitrary: vs)
    case Nil
    then show ?case by simp
  next
    case (Cons a us)
    then show ?case by (cases vs) (simp_all add: scoreEmbedded_id)
  qed
  with len s show ?thesis by simp
qed





lemma rank_embedded_order:
  assumes r: "rankUsersWithEmbeddings p st qs users topN minScore = Inr ms" and ne: "ms \<noteq> []"
  shows "\<exists>sc. embeddedScored p st qs users = Inr sc \<and> map userId sc = map userId users
     \<and> (\<forall>c. prefix (filter (\<lambda>m. cosineSimilarityOf m = c) ms) (filter (\<lambda>m. cosineSimilarityOf m = c) sc))"
proof -
  have "\<not> (qs = [] \<or> users = [])" using rank_embedded_empty [OF r] ne by blast
  then obtain sc where sc: "embeddedScored p st qs users = Inr sc"
    using rank_embedded_eq [OF r] by blast
  show ?thesis
    using sc embeddedScored_ids [OF sc] rank_embedded_stable [OF r sc] by blast
qed

section \<open>Claims on the ranker\<close>

text \<open>
  C7: every match that \<open>rank\<close> returns, from the binary ranker and from the embedding
  ranker, belongs to one of the candidates; its \<open>matchedSkills\<close> are among the raw skills of
  that candidate, unchanged, and its \<open>matchScore\<close> is the number of elements of
  \<open>matchedSkills\<close>.
\<close>

theorem matchedSkills_subset:
  "(\<forall>m \<in> set (rankUsersBySkills qs users topN minScore). matched_of users m)
   \<and> (rankUsersWithEmbeddings p st qs users topN minScore = Inr ms \<longrightarrow> (\<forall>m \<in> set ms. matched_of users m))"
proof (intro conjI ballI impI)
  fix m assume "m \<in> set (rankUsersBySkills qs users topN minScore)"
  then have "m \<in> set (scoredUsers qs users)" using rank_subset_scored by blast
  then show "matched_of users m" by (rule scoredUsers_matched)
next
  fix m assume r: "rankUsersWithEmbeddings p st qs users topN minScore = Inr ms" and m: "m \<in> set ms"
  from rankEmb_subset_scored [OF r] m obtain sc where
    "embeddedScored p st qs users = Inr sc" "m \<in> set sc" by auto
  then show "matched_of users m" by (rule embeddedScored_matched)
qed

theorem matchedSkills_subset_witness:
  "ex_m2 \<in> set (rankUsersBySkills ex_query [ex_u1, ex_u2] (Num 3) (Num (fl (1 / 10))))
   \<and> matched_of [ex_u1, ex_u2] ex_m2
   \<and> rankUsersWithEmbeddings emb_provider emb_state [''Rust''] [emb_u1, emb_u2, emb_u3] (Num 3) (Num (fl (3 / 10)))
       = Inr [emb_m1, emb_m2]
   \<and> matched_of [emb_u1, emb_u2, emb_u3] emb_m2"
  using matchedSkills_subset [where qs = ex_query and users = "[ex_u1, ex_u2]" and topN = "Num 3"
      and minScore = "Num (fl (1 / 10))"]
    matchedSkills_subset [where qs = "[''Rust'']" and users = "[emb_u1, emb_u2, emb_u3]"
      and topN = "Num 3" and minScore = "Num (fl (3 / 10))" and p = emb_provider and st = emb_state
      and ms = "[emb_m1, emb_m2]"]
  by (simp add: ex_rank emb_rank)

text \<open>
  C5, as stated: the output of both rankers is sorted non-increasing by the successive keys
  (cosineSimilarity, matchScore, totalSkills) and has at most \<open>topN\<close> elements.  The
  embedding ranker sorts by cosineSimilarity alone: two candidates of equal similarity stay
  in their input order, here the one with \<open>matchScore\<close> 0 before the one with
  \<open>matchScore\<close> 1.  And \<open>slice(0, topN)\<close> counts a negative \<open>topN\<close> from the end: with
  \<open>topN\<close> \<open>-1\<close> and two matches the binary ranker returns one match, which is more than
  \<open>topN\<close>.
\<close>

theorem embedding_rank_ignores_tie_breaks:
  "rankUsersWithEmbeddings emb_provider emb_state [''Rust''] [emb_u1, emb_u2, emb_u3] (Num 3) (Num (fl (3 / 10)))
     = Inr [emb_m1, emb_m2]
   \<and> \<not> sorted_wrt by_three_keys [emb_m1, emb_m2]
   \<and> rankUsersBySkills ex_query [ex_u1, ex_u2] (Num (- 1)) (Num (fl (1 / 10))) = [ex_m2]
   \<and> \<not> num_ge (Num (- 1)) (Num (of_nat (length [ex_m2])))"
  using emb_rank emb_not_three_keys ex_rank_minus by (simp add: num_ge_def)

text \<open>
  C5, amended: the output of the binary ranker is sorted non-increasing by
  (cosineSimilarity, matchScore, totalSkills), and matches equal in the three keys keep the
  order of their candidates; the output of the embedding ranker is sorted non-increasing by
  cosineSimilarity, and matches of equal similarity keep the order of their candidates
  (the matches of one similarity are the first ones of that similarity in the list
  \<open>scored\<close>, which follows the candidates).  Both outputs have at most as many elements as
  there are candidates, and at most \<open>topN\<close> where \<open>topN\<close> is not negative.
\<close>

theorem rank_sorted_bounded:
  "sorted_wrt by_three_keys (rankUsersBySkills qs users topN minScore)
   \<and> length (rankUsersBySkills qs users topN minScore) \<le> length users
   \<and> (num_ge topN (Num 0) \<longrightarrow>
        num_ge topN (Num (of_nat (length (rankUsersBySkills qs users topN minScore)))))
   \<and> map userId (scoredUsers qs users) = map userId users
   \<and> (\<forall>c s t. prefix (filter (same_keys c s t) (rankUsersBySkills qs users topN minScore))
                      (filter (same_keys c s t) (scoredUsers qs users)))
   \<and> (rankUsersWithEmbeddings p st qs users topN minScore = Inr ms \<longrightarrow>
        sorted_wrt by_similarity ms \<and> length ms \<le> length users
        \<and> (num_ge topN (Num 0) \<longrightarrow> num_ge topN (Num (of_nat (length ms))))
        \<and> (ms \<noteq> [] \<longrightarrow>
             (\<exists>sc. embeddedScored p st qs users = Inr sc \<and> map userId sc = map userId users
                \<and> (\<forall>c. prefix (filter (\<lambda>m. cosineSimilarityOf m = c) ms)
                               (filter (\<lambda>m. cosineSimilarityOf m = c) sc)))))"
  using rank_binary_sorted [of qs users topN minScore] rank_binary_length [of qs users topN minScore]
    rank_embedded_sorted [of p st qs users topN minScore ms] scoredUsers_ids [of qs users]
    rank_binary_stable [of _ _ _ qs users topN minScore]
    rank_embedded_order [of p st qs users topN minScore ms]
  by blast

theorem rank_sorted_bounded_witness:
  "rankUsersBySkills ex_query [ex_u1, ex_u2] (Num 3) (Num (fl (1 / 10))) = [ex_m2, ex_m1]
   \<and> sorted_wrt by_three_keys [ex_m2, ex_m1]
   \<and> length [ex_m2, ex_m1] \<le> length [ex_u1, ex_u2]
   \<and> num_ge (Num 3) (Num (of_nat (length [ex_m2, ex_m1])))
   \<and> rankUsersWithEmbeddings emb_provider emb_state [''Rust''] [emb_u1, emb_u2, emb_u3] (Num 3) (Num (fl (3 / 10)))
       = Inr [emb_m1, emb_m2]
   \<and> sorted_wrt by_similarity [emb_m1, emb_m2]
   \<and> length [emb_m1, emb_m2] \<le> length [emb_u1, emb_u2, emb_u3]
   \<and> num_ge (Num 3) (Num (of_nat (length [emb_m1, emb_m2])))
   \<and> embeddedScored emb_provider emb_state [''Rust''] [emb_u1, emb_u2, emb_u3] = Inr [emb_m1, emb_m2, emb_m3]
   \<and> prefix (filter (\<lambda>m. cosineSimilarityOf m = Num 1) [emb_m1, emb_m2])
        (filter (\<lambda>m. cosineSimilarityOf m = Num 1) [emb_m1, emb_m2, emb_m3])"
proof -
  have n: "num_ge (Num 3) (Num 0)" "[emb_m1, emb_m2] \<noteq> []" by (simp_all add: num_ge_def)
  from rank_sorted_bounded [where qs = ex_query and users = "[ex_u1, ex_u2]" and topN = "Num 3"
      and minScore = "Num (fl (1 / 10))" and p = emb_provider and st = emb_state and ms = "[]"] n
  have b: "sorted_wrt by_three_keys [ex_m2, ex_m1]"
    "length [ex_m2, ex_m1] \<le> length [ex_u1, ex_u2]"
    "num_ge (Num 3) (Num (of_nat (length [ex_m2, ex_m1])))"
    unfolding ex_rank by blast+
  from rank_sorted_bounded [where qs = "[''Rust'']" and users = "[emb_u1, emb_u2, emb_u3]"
      and topN = "Num 3" and minScore = "Num (fl (3 / 10))" and p = emb_provider and st = emb_state
      and ms = "[emb_m1, emb_m2]"] emb_rank n
  have e: "sorted_wrt by_similarity [emb_m1, emb_m2]"
    "length [emb_m1, emb_m2] \<le> length [emb_u1, emb_u2, emb_u3]"
    "num_ge (Num 3) (Num (of_nat (length [emb_m1, emb_m2])))"
    "\<exists>sc. embeddedScored emb_provider emb_state [''Rust''] [emb_u1, emb_u2, emb_u3] = Inr sc
        \<and> (\<forall>c. prefix (filter (\<lambda>m. cosineSimilarityOf m = c) [emb_m1, emb_m2])
                      (filter (\<lambda>m. cosineSimilarityOf m = c) sc))"
    by blast+
  from e(4) have s: "prefix (filter (\<lambda>m. cosineSimilarityOf m = Num 1) [emb_m1, emb_m2])
        (filter (\<lambda>m. cosineSimilarityOf m = Num 1) [emb_m1, emb_m2, emb_m3])"
    unfolding emb_scored by blast
  show ?thesis using b e(1-3) s ex_rank emb_rank emb_scored by (simp only: simp_thms)
qed

text \<open>
  C4, as stated: in the example the second candidate comes first with cosine similarity
  exactly 1.0.  It comes first, but the vocabulary has four terms, the vectors are
  \<open>[1,1,0,0]\<close> and \<open>[1,1,0,1]\<close>, and the similarity is \<open>2 / (sqrt 2 * sqrt 3)\<close>, reported as
  0.8165.
\<close>

theorem rank_example_first_not_one:
  "map userId (rankUsersBySkills ex_query [ex_u1, ex_u2] (Num 3) (Num (fl (1 / 10)))) = [''u2'', ''u1'']
   \<and> cosineSimilarityOf (hd (rankUsersBySkills ex_query [ex_u1, ex_u2] (Num 3) (Num (fl (1 / 10))))) \<noteq> Num 1"
  using fl_8165 by (simp add: ex_rank ex_m1_def ex_m2_def)

text \<open>
  C4, amended: for the query \<open>["React", "Node.js"]\<close>, the candidates with the skills
  \<open>["React", "TypeScript"]\<close> and \<open>["React", "Node.js", "MongoDB"]\<close>, \<open>minScore\<close> 0.1 and
  \<open>topN\<close> 3, \<open>rank\<close> returns the second candidate first with cosine similarity 0.8165
  (the binary64 value of that literal) and the first candidate second with cosine
  similarity exactly 0.5.
\<close>

theorem rank_example:
  "map (\<lambda>m. (userId m, matchedSkills m, cosineSimilarityOf m))
       (rankUsersBySkills [''React'', ''Node.js'']
          [\<lparr>userId = ''u1'', name = ''Ada'', email = ''ada@example.org'', bio = [],
             skills = [''React'', ''TypeScript''], availability = Available\<rparr>,
           \<lparr>userId = ''u2'', name = ''Bob'', email = ''bob@example.org'', bio = [],
             skills = [''React'', ''Node.js'', ''MongoDB''], availability = Available\<rparr>]
          (Num 3) (Num (fl (1 / 10))))
   = [(''u2'', [''React'', ''Node.js''], Num (fl (8165 / 10000))),
      (''u1'', [''React''], Num (1 / 2))]"
  using ex_rank by (simp add: ex_query_def ex_u1_def ex_u2_def ex_m1_def ex_m2_def)




text \<open>
  C6, as stated: \<open>cosine(v, v) == 1.0\<close> for every non-zero vector, and the cosine of the
  zero vector with any vector is exactly 0, never \<open>NaN\<close>.  The function computes
  \<open>dot / (Math.sqrt(normA) * Math.sqrt(normB))\<close> in binary64: for \<open>v = [1, 1]\<close> the product
  of the two square roots of 2 is \<open>2 + 2^-51\<close> and the quotient is \<open>1 - 2^-52\<close>.  A
  \<open>Float32Array\<close> can hold \<open>Infinity\<close>: against \<open>[Infinity]\<close> the zero vector has the
  denominator \<open>0 * Infinity\<close>, which is \<open>NaN\<close> and not \<open>=== 0\<close>, and the result is \<open>NaN\<close>; so
  is \<open>cosine([Infinity], [Infinity])\<close>.  And the loop runs over the first vector: a zero
  vector longer than the second one reads \<open>undefined\<close> there, and the result is \<open>NaN\<close>.
\<close>

theorem cosine_self_not_one:
  "cosineSimilarity [Num 1, Num 1] [Num 1, Num 1] = Num (1 - 1 / 2 ^ 52)
   \<and> cosineSimilarity [Num 1, Num 1] [Num 1, Num 1] \<noteq> Num 1
   \<and> cosineSimilarity [Num 0] [PInf] = NaN
   \<and> cosineSimilarity [PInf] [PInf] = NaN
   \<and> cosineSimilarity [Num 0, Num 0] [Num 1] = NaN"
  by (simp add: cosine_ones cosine_infinite cosine_short)

text \<open>
  C6, amended: the cosine of a zero vector with a vector of finite elements is exactly 0
  (never \<open>NaN\<close>), by the test \<open>denom === 0\<close>, whether the zero vector is the first or the
  second argument, where the first argument is not longer than the second.  For a vector
  \<open>v\<close> of finite elements that is not zero, \<open>cosine(v, v)\<close> is a number within \<open>2^-50\<close> of 1,
  and 1 exactly once rounded to four decimals as \<open>rank\<close> reports it.
\<close>

theorem cosine_self_and_zero:
  "((\<forall>x \<in> set a. x = Num 0) \<and> (\<forall>y \<in> set b. finite32 y) \<and> length a \<le> length b \<longrightarrow>
       cosineSimilarity a b = Num 0)
   \<and> ((\<forall>y \<in> set b. y = Num 0) \<and> (\<forall>x \<in> set a. finite32 x) \<and> length a \<le> length b \<longrightarrow>
       cosineSimilarity a b = Num 0)
   \<and> ((\<forall>x \<in> set v. finite32 x) \<and> (\<exists>x \<in> set v. x \<noteq> Num 0) \<longrightarrow>
       (\<exists>c. cosineSimilarity v v = Num c \<and> \<bar>c - 1\<bar> \<le> 1 / 2 ^ 50 \<and> round4 (Num c) = Num 1))"
  using cosine_zero_left [of a b] cosine_zero_right [of b a] cosine_self [of v]
  by blast

theorem cosine_self_and_zero_witness:
  "cosineSimilarity [Num 0, Num 0] [Num 3, Num 4] = Num 0
   \<and> cosineSimilarity [Num 3, Num 4] [Num 0, Num 0] = Num 0
   \<and> \<bar>(1 - 1 / 2 ^ 52) - 1\<bar> \<le> (1 / 2 ^ 50 :: real)
   \<and> round4 (cosineSimilarity [Num 1, Num 1] [Num 1, Num 1]) = Num 1"
proof -
  have z: "\<forall>x \<in> set [Num 0, Num 0]. x = Num 0" by simp
  have f: "\<forall>y \<in> set [Num 3, Num 4]. finite32 y" by simp
  have l: "length [Num 0, Num 0] \<le> length [Num 3, Num 4]" "length [Num 3, Num 4] \<le> length [Num 0, Num 0]"
    by simp_all
  have n: "\<forall>x \<in> set [Num 1, Num 1]. finite32 x" "\<exists>x \<in> set [Num 1, Num 1]. x \<noteq> Num 0" by simp_all
  from cosine_self_and_zero [of "[Num 0, Num 0]" "[Num 3, Num 4]" "[Num 1, Num 1]"] z f l(1)
  have z1: "cosineSimilarity [Num 0, Num 0] [Num 3, Num 4] = Num 0" by blast
  from cosine_self_and_zero [of "[Num 3, Num 4]" "[Num 0, Num 0]" "[Num 1, Num 1]"] z f l(2) n
  obtain c where z2: "cosineSimilarity [Num 3, Num 4] [Num 0, Num 0] = Num 0"
    and c: "cosineSimilarity [Num 1, Num 1] [Num 1, Num 1] = Num c" "round4 (Num c) = Num 1"
    by blast
  have "round4 (cosineSimilarity [Num 1, Num 1] [Num 1, Num 1]) = Num 1" by (simp only: c)
  moreover have "\<bar>(1 - 1 / 2 ^ 52) - 1\<bar> \<le> (1 / 2 ^ 50 :: real)" by simp
  ultimately show ?thesis using z1 z2 by simp
qed

text \<open>
  C10, as stated: a candidate with no skills always scores cosine similarity 0 in the
  embedding ranker.  \<open>embeddingCosine\<close> converts both vectors to \<open>Float32Array\<close> and runs
  the loop over the query vector.  Where the provider answers the query with a vector
  holding \<open>1e39\<close>, which is \<open>Infinity\<close> in binary32, or with a vector of 1537 elements, the
  candidate with no skills is scored \<open>NaN\<close>, and the ranker drops it even with \<open>minScore\<close> 0.
\<close>

theorem no_skills_scores_NaN:
  "skills emb_u3 = []
   \<and> embeddedScored big_provider emb_state [''Rust''] [emb_u3] = Inr [emb_m3\<lparr>cosineSimilarityOf := NaN\<rparr>]
   \<and> rankUsersWithEmbeddings big_provider emb_state [''Rust''] [emb_u3] (Num 3) (Num 0) = Inr []
   \<and> embeddedScored long_provider emb_state [''Rust''] [emb_u3] = Inr [emb_m3\<lparr>cosineSimilarityOf := NaN\<rparr>]
   \<and> rankUsersWithEmbeddings long_provider emb_state [''Rust''] [emb_u3] (Num 3) (Num 0) = Inr []
   \<and> cosineSimilarityOf (emb_m3\<lparr>cosineSimilarityOf := NaN\<rparr>) \<noteq> Num 0"
proof -
  have e: "skills emb_u3 = []" by (simp add: emb_u3_def)
  show ?thesis using e big_scored long_scored big_rank long_rank by simp
qed

text \<open>
  C10, amended: \<open>generateSkillEmbedding\<close> on an empty skill list returns the vector of 1536
  zeros at once: no request goes to the embedding provider and the cache is neither read
  nor written, whatever the provider and the cache are.  Where the query vector has at most
  1536 elements, each a finite number once converted to binary32, its cosine with that
  vector is 0, and the embedding ranker scores a candidate with no skills 0.
\<close>

theorem empty_skills_embedding:
  "generateSkillEmbedding p [] st = (Inr (replicate 1536 (Num 0)), st)
   \<and> (length qv \<le> 1536 \<and> (\<forall>v \<in> set qv. is_finite (toFloat32 v)) \<longrightarrow>
        embeddingCosine qv (replicate 1536 (Num 0)) = Num 0)
   \<and> (embeddedScored p st qs users = Inr sc \<and> fst (generateSkillEmbedding p qs st) = Inr qv
        \<and> length qv \<le> 1536 \<and> (\<forall>v \<in> set qv. is_finite (toFloat32 v))
        \<and> i < length users \<and> skills (users ! i) = [] \<longrightarrow>
        i < length sc \<and> userId (sc ! i) = userId (users ! i) \<and> cosineSimilarityOf (sc ! i) = Num 0)"
  using generate_empty [of p st] embeddingCosine_zeros [of qv]
    no_skills_scores_zero [of p st qs users sc qv i]
  by blast

theorem empty_skills_embedding_witness:
  "generateSkillEmbedding emb_provider [] emb_state = (Inr (replicate 1536 (Num 0)), emb_state)
   \<and> length unit_vector \<le> 1536
   \<and> list_all (\<lambda>v. is_finite (toFloat32 v)) unit_vector
   \<and> embeddingCosine unit_vector (replicate 1536 (Num 0)) = Num 0
   \<and> embeddedScored emb_provider emb_state [''Rust''] [emb_u1, emb_u2, emb_u3] = Inr [emb_m1, emb_m2, emb_m3]
   \<and> skills ([emb_u1, emb_u2, emb_u3] ! 2) = []
   \<and> userId ([emb_m1, emb_m2, emb_m3] ! 2) = ''u3''
   \<and> cosineSimilarityOf ([emb_m1, emb_m2, emb_m3] ! 2) = Num 0"
proof -
  note l = unit_finite
  have q: "fst (generateSkillEmbedding emb_provider [''Rust''] emb_state) = Inr unit_vector"
    by (rule emb_vectors) simp
  have i: "(2::nat) < length [emb_u1, emb_u2, emb_u3]" by simp
  have e: "skills ([emb_u1, emb_u2, emb_u3] ! 2) = []" by (simp add: emb_u3_def)
  have u: "userId ([emb_u1, emb_u2, emb_u3] ! 2) = ''u3''" by (simp add: emb_u3_def)
  from empty_skills_embedding [where p = emb_provider and st = emb_state and qv = unit_vector
      and qs = "[''Rust'']" and users = "[emb_u1, emb_u2, emb_u3]"
      and sc = "[emb_m1, emb_m2, emb_m3]" and i = 2] emb_scored l q i e
  have "generateSkillEmbedding emb_provider [] emb_state = (Inr (replicate 1536 (Num 0)), emb_state)"
    and "embeddingCosine unit_vector (replicate 1536 (Num 0)) = Num 0"
    and "userId ([emb_m1, emb_m2, emb_m3] ! 2) = userId ([emb_u1, emb_u2, emb_u3] ! 2)"
    and "cosineSimilarityOf ([emb_m1, emb_m2, emb_m3] ! 2) = Num 0"
    by blast+
  with l emb_scored e u show ?thesis by (simp only: simp_thms list_all_iff)
qed

section \<open>Facts about the tools and the agents\<close>

lemma draft_sender_missing:
  assumes "fromUserId inp \<noteq> []" "toUserId inp \<noteq> []" "findUser e (fromUserId inp) = None"
  shows "draftIntroMessage e inp = Inl (SenderNotFound (fromUserId inp))"
  using assms by (simp add: draftIntroMessage_def)

lemma draft_recipient_missing:
  assumes "fromUserId inp \<noteq> []" "toUserId inp \<noteq> []" "findUser e (fromUserId inp) \<noteq> None"
    "findUser e (toUserId inp) = None"
  shows "draftIntroMessage e inp = Inl (RecipientNotFound (toUserId inp))"
  using assms by (auto simp: draftIntroMessage_def)

lemma draft_project_missing:
  assumes "fromUserId inp \<noteq> []" "toUserId inp \<noteq> []" "findUser e (fromUserId inp) \<noteq> None"
    "findUser e (toUserId inp) \<noteq> None" "projectId inp = Some pid" "findProject e pid = Inr None"
  shows "\<exists>d. draftIntroMessage e inp = Inr d \<and> recipientId d = toUserId inp \<and> projectTitle d = None"
  using assms by (auto simp: draftIntroMessage_def Let_def)

lemma draft_recipient: "draftIntroMessage e inp = Inr d \<Longrightarrow> recipientId d = toUserId inp"
  by (auto simp: draftIntroMessage_def Let_def split: if_splits option.splits sum.splits)

lemma execute_capped:
  "MAX_TOOL_CALLS \<le> b_toolCallsMade st \<Longrightarrow> executeToolCall e ti st = (Inl CapExceeded, st)"
  by (simp add: executeToolCall_def)

lemma execute_bounds:
  assumes "executeToolCall e ti st = (r, st')" "b_toolCallsMade st \<le> MAX_TOOL_CALLS"
    "length (b_toolCallLog st) \<le> b_toolCallsMade st"
  shows "b_toolCallsMade st' \<le> MAX_TOOL_CALLS \<and> length (b_toolCallLog st') \<le> b_toolCallsMade st'"
  using assms by (auto simp: executeToolCall_def Let_def split: if_splits sum.splits)

lemma execute_initial:
  "executeToolCall e ti \<lparr>b_toolCallsMade = 0, b_toolCallLog = []\<rparr> =
     (case run_tool e ti of
        Inl err \<Rightarrow> (Inl err, \<lparr>b_toolCallsMade = 1, b_toolCallLog = []\<rparr>)
      | Inr out \<Rightarrow> (Inr out, \<lparr>b_toolCallsMade = 1, b_toolCallLog =
          [\<lparr>log_tool = tool_of ti, log_input = ti, log_output = out, log_executedAt = clock e\<rparr>]\<rparr>))"
  by (simp add: executeToolCall_def MAX_TOOL_CALLS_def Let_def split: sum.splits)

lemma bounded_agent_bounds:
  "out_toolCallsMade (runBoundedAgent e inp) \<le> MAX_TOOL_CALLS
   \<and> length (out_toolCallLog (runBoundedAgent e inp)) \<le> out_toolCallsMade (runBoundedAgent e inp)"
  unfolding runBoundedAgent_def Let_def execute_initial
  by (simp add: agentFailure_def MAX_TOOL_CALLS_def split: sum.splits tool_output.splits)


lemma map_sum_Inr: "map_sum f g x = Inr y \<Longrightarrow> \<exists>r. x = Inr r \<and> y = g r"
  by (cases x) auto

lemma validate_string:
  "validateRecipientId toUser confirmed \<Longrightarrow>
     \<exists>t. toUser = Some (JStr t) \<and> t \<in> set (map userId confirmed)"
  by (auto simp: validateRecipientId_def list_ex_iff split: option.splits json.splits)

lemma dispatch_match_name:
  assumes "dispatchTool e toolName args ctx = Inr (DispatchResult (MatchOutput m))"
  shows "toolName = ''match_users_by_skills''"
proof (rule ccontr)
  assume n: "toolName \<noteq> ''match_users_by_skills''"
  show False
  proof (cases "toolName = ''draft_intro_message''")
    case False
    with n assms show False by (simp add: dispatchTool_def)
  next
    case True
    with n assms show False
      by (auto simp: dispatchTool_def split: sum.splits if_splits prod.splits dest!: map_sum_Inr)
  qed
qed

lemma dispatch_draft_guarded:
  assumes "dispatchTool e toolName args ctx = Inr (DispatchResult (DraftOutput d))"
  shows "toolName = ''draft_intro_message'' \<and> recipientId d \<in> set (map userId (ctx_confirmedMatches ctx))"
proof (cases "toolName = ''match_users_by_skills''")
  case True
  with assms show ?thesis
    by (auto simp: dispatchTool_def split: sum.splits option.splits json.splits list.splits
        if_splits prod.splits dest!: map_sum_Inr)
next
  case False
  note nm = this
  show ?thesis
  proof (cases "toolName = ''draft_intro_message''")
    case False
    with nm assms show ?thesis by (simp add: dispatchTool_def)
  next
    case True
    from assms True obtain toUser where
      g: "get_field args ''to_user_id'' = Inr toUser"
      by (auto simp: dispatchTool_def split: sum.splits)
    from assms True g have v: "validateRecipientId toUser (ctx_confirmedMatches ctx)"
      by (auto simp: dispatchTool_def split: if_splits)
    then obtain t where t: "toUser = Some (JStr t)" "t \<in> set (map userId (ctx_confirmedMatches ctx))"
      using validate_string by blast
    from assms True g v t(1) obtain inp where
      "draftIntroMessage e inp = Inr d" "toUserId inp = t"
      by (auto simp: dispatchTool_def split: sum.splits if_splits prod.splits dest!: map_sum_Inr)
    then have "recipientId d = t" using draft_recipient by fastforce
    with t(2) True show ?thesis by simp
  qed
qed



lemma inv_bound: "agent_inv st \<Longrightarrow> agent_bound st"
  by (simp add: agent_inv_def agent_bound_def)

lemma inv_push:
  "agent_inv st \<Longrightarrow> returned_matches msg = [] \<Longrightarrow> agent_inv (push_message msg st)"
  by (auto simp: agent_inv_def push_message_def split: option.splits)

lemma inv_failed:
  assumes "agent_inv st" "o_toolCallsMade st < MAX_TOOL_CALLS"
  shows "agent_inv (push_message (ToolMsg i (ToolFailed err))
           (st\<lparr>o_dispatched := o_dispatched st @ [c], o_toolCallsMade := o_toolCallsMade st + 1\<rparr>))"
  using assms by (auto simp: agent_inv_def push_message_def split: option.splits)

lemma inv_returned:
  assumes inv: "agent_inv st" and lt: "o_toolCallsMade st < MAX_TOOL_CALLS"
    and d: "dispatchTool e toolName args
              \<lparr>ctx_userId = u, ctx_projectId = pr, ctx_confirmedMatches = o_confirmedMatches st\<rparr>
            = Inr (DispatchResult out)"
  shows "agent_inv (push_message (ToolMsg i (ToolReturned out))
           (capture toolName out
             (st\<lparr>o_dispatched := o_dispatched st @ [c], o_toolCallsMade := o_toolCallsMade st + 1\<rparr>)))"
proof (cases out)
  case (MatchOutput m)
  with d have "toolName = ''match_users_by_skills''" using dispatch_match_name by blast
  with inv lt MatchOutput show ?thesis
    by (auto simp: agent_inv_def push_message_def capture_def split: option.splits)
next
  case (DraftOutput dr)
  with d have "toolName = ''draft_intro_message''"
    and "recipientId dr \<in> set (map userId (o_confirmedMatches st))"
    using dispatch_draft_guarded by fastforce+
  with inv lt DraftOutput show ?thesis
    by (auto simp: agent_inv_def push_message_def capture_def)
qed

lemma process_inv:
  assumes "agent_inv st" "process_tool_calls e req tcs st = (r, st')"
  shows "(r = None \<longrightarrow> agent_inv st') \<and> agent_bound st'"
  using assms
proof (induction tcs arbitrary: st)
  case Nil
  then show ?case by (simp add: inv_bound)
next
  case (Cons tc tcs)
  show ?case
  proof (cases "tc_is_function tc")
    case False
    with Cons show ?thesis by simp
  next
    case True
    note fn = this
    show ?thesis
    proof (cases "MAX_TOOL_CALLS \<le> o_toolCallsMade st")
      case True
      with fn Cons.prems have "st' = push_message (ToolMsg (tc_id tc) CapReached) st" "r = None"
        by simp_all
      with Cons.prems(1) show ?thesis by (simp add: inv_push inv_bound)
    next
      case False
      then have lt: "o_toolCallsMade st < MAX_TOOL_CALLS" by simp
      let ?args = "case tc_arguments tc of None \<Rightarrow> JObj [] | Some a \<Rightarrow> a"
      let ?ctx = "\<lparr>ctx_userId = req_userId req, ctx_projectId = req_projectId req,
                    ctx_confirmedMatches = o_confirmedMatches st\<rparr>"
      let ?c = "(tc_name tc, ?args)"
      show ?thesis
      proof (cases "dispatchTool e (tc_name tc) ?args ?ctx")
        case (Inl err)
        with fn False Cons.prems(2)
        have "st' = st\<lparr>o_dispatched := o_dispatched st @ [?c]\<rparr>" "r = Some err"
          by (simp_all add: Let_def)
        with Cons.prems(1) lt show ?thesis by (simp add: agent_inv_def agent_bound_def)
      next
        case (Inr res)
        show ?thesis
        proof (cases res)
          case (DispatchError err)
          let ?st = "push_message (ToolMsg (tc_id tc) (ToolFailed err))
              (st\<lparr>o_dispatched := o_dispatched st @ [?c], o_toolCallsMade := o_toolCallsMade st + 1\<rparr>)"
          have "agent_inv ?st" using Cons.prems(1) lt by (rule inv_failed)
          moreover have "process_tool_calls e req tcs ?st = (r, st')"
            using fn False Inr DispatchError Cons.prems(2) by (simp add: Let_def)
          ultimately show ?thesis by (rule Cons.IH)
        next
          case (DispatchResult out)
          let ?st = "push_message (ToolMsg (tc_id tc) (ToolReturned out))
              (capture (tc_name tc) out
                (st\<lparr>o_dispatched := o_dispatched st @ [?c], o_toolCallsMade := o_toolCallsMade st + 1\<rparr>))"
          have "agent_inv ?st"
            using Cons.prems(1) lt Inr DispatchResult by (intro inv_returned) simp_all
          moreover have "process_tool_calls e req tcs ?st = (r, st')"
            using fn False Inr DispatchResult Cons.prems(2) by (simp add: Let_def)
          ultimately show ?thesis by (rule Cons.IH)
        qed
      qed
    qed
  qed
qed

lemma turns_inv:
  assumes "agent_inv st" "agent_turns e l req n st = (r, st')"
  shows "(r = None \<longrightarrow> agent_inv st') \<and> agent_bound st'"
  using assms
proof (induction n arbitrary: st)
  case 0
  then show ?case by (simp add: inv_bound)
next
  case (Suc n)
  show ?case
  proof (cases "MAX_TOOL_CALLS \<le> o_toolCallsMade st")
    case True
    with Suc.prems show ?thesis by (simp add: inv_bound)
  next
    case False
    note lt = this
    show ?thesis
    proof (cases "completion l (o_messages st)")
      case (Inl err)
      with lt Suc.prems show ?thesis by (simp add: inv_bound)
    next
      case (Inr am)
      let ?st1 = "push_message (AssistantMsg am) st"
      have i1: "agent_inv ?st1" using Suc.prems(1) by (simp add: inv_push)
      show ?thesis
      proof (cases "am_tool_calls am = []")
        case True
        with lt Inr Suc.prems(2) have "st' = ?st1" "r = None" by (simp_all add: Let_def)
        with i1 show ?thesis by (simp add: inv_bound)
      next
        case False
        obtain r2 st2 where p: "process_tool_calls e req (am_tool_calls am) ?st1 = (r2, st2)"
          by (cases "process_tool_calls e req (am_tool_calls am) ?st1")
        from process_inv [OF i1 p] have p2: "(r2 = None \<longrightarrow> agent_inv st2) \<and> agent_bound st2" .
        show ?thesis
        proof (cases r2)
          case None
          with lt Inr False p Suc.prems(2) have "agent_turns e l req n st2 = (r, st')"
            by (simp add: Let_def)
          moreover have "agent_inv st2" using p2 None by simp
          ultimately show ?thesis using Suc.IH by blast
        next
          case (Some err)
          with lt Inr False p Suc.prems(2) have "st' = st2" "r = Some err"
            by (simp_all add: Let_def)
          with p2 show ?thesis by simp
        qed
      qed
    qed
  qed
qed

lemma initial_inv:
  "agent_inv \<lparr>o_toolCallsMade = 0, o_confirmedMatches = [], o_draftMessage = None,
      o_finalMatches = None, o_messages = [SystemMsg, UserMsg t], o_dispatched = []\<rparr>"
  by (simp add: agent_inv_def)

lemma run_bounds:
  "resp_toolCallsMade (fst (openai_run e l req)) \<le> MAX_TOOL_CALLS
   \<and> resp_toolCallsMade (fst (openai_run e l req)) = o_toolCallsMade (snd (openai_run e l req))
   \<and> length (o_dispatched (snd (openai_run e l req))) \<le> MAX_TOOL_CALLS"
proof -
  let ?st0 = "\<lparr>o_toolCallsMade = 0, o_confirmedMatches = [], o_draftMessage = None,
      o_finalMatches = None, o_messages = [SystemMsg, UserMsg (req_message req)], o_dispatched = []\<rparr>"
  obtain r st where t: "agent_turns e l req 2 ?st0 = (r, st)"
    by (cases "agent_turns e l req 2 ?st0")
  from turns_inv [OF initial_inv t] have b: "agent_bound st" by simp
  have "snd (openai_run e l req) = st"
    by (simp add: openai_run_def Let_def t split: option.splits sum.splits)
  moreover have "resp_toolCallsMade (fst (openai_run e l req)) = o_toolCallsMade st"
    by (simp add: openai_run_def Let_def t fallbackError_def split: option.splits sum.splits)
  ultimately show ?thesis using b by (simp add: agent_bound_def)
qed


section \<open>The agents on the small store\<close>

lemma demo_candidate: "toCandidate demo_raw_bob = ex_u2"
  by (simp add: toCandidate_def demo_raw_bob_def ex_u2_def truthy_str_def)

lemma demo_match:
  assumes "1 \<le> n"
  shows "matchUsersBySkills demo_env
     \<lparr>in_skills = ex_query, in_limit = Some (Num n), in_excludeUserId = Some ''u1'',
      in_availabilityFilter = None, in_useEmbeddings = None\<rparr> = Inr demo_match_output"
proof -
  have q: "ex_query \<noteq> []" by (simp add: ex_query_def)
  have "1 \<le> \<lfloor>n\<rfloor>" using assms by simp
  then have "Suc 0 \<le> nat \<lfloor>n\<rfloor>" by linarith
  then have s: "slice0 (Num n) [ex_m2] = [ex_m2]"
    using assms by (simp add: slice0_def slice_end_def Let_def)
  show ?thesis
    unfolding matchUsersBySkills_def Let_def
    using q by (simp add: demo_env_def demo_candidate ex_alone_rank_tenth s demo_match_output_def)
qed


lemma sloppy_dispatch_match:
  "dispatchTool demo_env ''match_users_by_skills''
      (JObj [(''skills'', JArr [JStr ''React'', JStr ''Node.js'']), (''limit'', JStr ''3'')])
      \<lparr>ctx_userId = ''u1'', ctx_projectId = None, ctx_confirmedMatches = []\<rparr>
    = Inr (DispatchResult (MatchOutput demo_match_output))"
proof -
  have "map (\<lambda>v. the (json_string v)) [JStr ''React'', JStr ''Node.js''] = ex_query"
    by (simp add: ex_query_def)
  moreover have "number_of demo_env (JStr ''3'') = Num 3" by (simp add: number_of_def demo_env_def)
  ultimately show ?thesis
    unfolding dispatchTool_def
    by (simp add: or_else_def toAvailabilityFilter_def demo_match)
qed

lemma demo_draft_message:
  "draftIntroMessage demo_env
     \<lparr>fromUserId = ''u1'', toUserId = ''u2'', projectId = pr, customNote = None\<rparr> = Inr demo_draft"
  by (auto simp: draftIntroMessage_def demo_env_def Let_def demo_draft_def demo_ada_def demo_bob_def
      truthy_opt_def)

lemma sloppy_draft_message:
  "draftIntroMessage demo_env
     \<lparr>fromUserId = ''u1'', toUserId = ''u2'', projectId = Some (JNum (Num 404)),
      customNote = Some (JNum (Num 7))\<rparr> = Inr sloppy_draft"
  by (simp add: draftIntroMessage_def demo_env_def Let_def sloppy_draft_def demo_ada_def demo_bob_def
      truthy_opt_def text_of_def)


lemma sloppy_dispatch_draft:
  "dispatchTool demo_env ''draft_intro_message''
      (JObj [(''to_user_id'', JStr ''u2''), (''project_id'', JNum (Num 404)), (''custom_note'', JNum (Num 7))])
      \<lparr>ctx_userId = ''u1'', ctx_projectId = None, ctx_confirmedMatches = [ex_m2]\<rparr>
    = Inr (DispatchResult (DraftOutput sloppy_draft))"
  unfolding dispatchTool_def
  by (simp add: validateRecipientId_def or_else_def sloppy_draft_message ex_m2_def)

lemma demo_dispatch_refused:
  "dispatchTool demo_env ''draft_intro_message'' (JObj [(''to_user_id'', JStr ''u9'')])
      \<lparr>ctx_userId = ''u1'', ctx_projectId = None, ctx_confirmedMatches = []\<rparr>
    = Inr (DispatchError (GuardViolation (Some (JStr ''u9''))))"
  unfolding dispatchTool_def by (simp add: validateRecipientId_def)

lemma approve_run:
  "runBoundedAgent demo_env approve_input =
     \<lparr>out_success = True, out_toolCallsMade = 1, out_matches = None,
      out_draftMessage = Some demo_draft, out_awaitingApproval = False,
      out_toolCallLog =
        [\<lparr>log_tool = draft_intro_message,
          log_input = DraftInput \<lparr>fromUserId = ''u1'', toUserId = ''u2'', projectId = None, customNote = None\<rparr>,
          log_output = DraftOutput demo_draft, log_executedAt = ''2024-01-01T00:00:00.000Z''\<rparr>],
      out_error = None\<rparr>"
  unfolding runBoundedAgent_def Let_def execute_initial
  by (simp add: approve_input_def truthy_str_def demo_draft_message truthy_opt_def) (simp add: demo_env_def)


lemma sloppy_run:
  "resp_draftMessage (fst (openai_run demo_env sloppy_llm demo_req)) = Some sloppy_draft
   \<and> resp_toolCallsMade (fst (openai_run demo_env sloppy_llm demo_req)) = 2
   \<and> concat (map returned_matches (o_messages (snd (openai_run demo_env sloppy_llm demo_req)))) = [ex_m2]
   \<and> length (o_dispatched (snd (openai_run demo_env sloppy_llm demo_req))) = 2"
  by (simp add: openai_run_def numeral_2_eq_2 sloppy_llm_def demo_req_def sloppy_match_call_def
      sloppy_draft_call_def MAX_TOOL_CALLS_def push_message_def capture_def Let_def
      sloppy_dispatch_match sloppy_dispatch_draft demo_match_output_def no_summary_def)

lemma greedy_run:
  "resp_draftMessage (fst (openai_run demo_env greedy_llm demo_req)) = None
   \<and> resp_toolCallsMade (fst (openai_run demo_env greedy_llm demo_req)) = 2
   \<and> length (o_dispatched (snd (openai_run demo_env greedy_llm demo_req))) = 2
   \<and> o_messages (snd (openai_run demo_env greedy_llm demo_req)) =
       [SystemMsg, UserMsg ''Find me a React and Node.js developer'',
        AssistantMsg \<lparr>am_content = None,
          am_tool_calls = [draft_call ''u9'', draft_call ''u9'', draft_call ''u9'']\<rparr>,
        ToolMsg ''call_2'' (ToolFailed (GuardViolation (Some (JStr ''u9'')))),
        ToolMsg ''call_2'' (ToolFailed (GuardViolation (Some (JStr ''u9'')))),
        ToolMsg ''call_2'' CapReached]"
proof -
  have c: "tc_is_function (draft_call ''u9'')" "tc_id (draft_call ''u9'') = ''call_2''"
    "tc_name (draft_call ''u9'') = ''draft_intro_message''"
    "tc_arguments (draft_call ''u9'') = Some (JObj [(''to_user_id'', JStr ''u9'')])"
    by (simp_all add: draft_call_def)
  show ?thesis
    by (simp add: openai_run_def numeral_2_eq_2 greedy_llm_def demo_req_def c
        MAX_TOOL_CALLS_def push_message_def Let_def demo_dispatch_refused no_summary_def)
qed

lemma after_two_calls_count: "b_toolCallsMade after_two_calls = 2"
  by (simp add: after_two_calls_def executeToolCall_def MAX_TOOL_CALLS_def Let_def
      demo_draft_input_def demo_draft_message truthy_opt_def)

lemma demo_has_key: "runOpenAIAgent demo_env l req = Inr (fst (openai_run demo_env l req))"
  by (simp add: runOpenAIAgent_def demo_env_def)

section \<open>Claims on the drafter and the agents\<close>

text \<open>
  C8, as stated: drafting fails when the sender id, the recipient id or the project id does
  not resolve.  A \<open>projectId\<close> that resolves to no project is not an error: the test
  \<open>if (project)\<close> leaves the project context out and the draft is returned.
\<close>

theorem draft_without_project:
  "findProject demo_env (JStr ''p404'') = Inr None
   \<and> draftIntroMessage demo_env
        \<lparr>fromUserId = ''u1'', toUserId = ''u2'', projectId = Some (JStr ''p404''), customNote = None\<rparr>
      = Inr demo_draft"
  by (simp add: demo_draft_message) (simp add: demo_env_def)

text \<open>
  C8, amended: the Intro Drafter fails with a not-found error when the sender id or the
  recipient id does not resolve via the storage collaborator, the sender being looked at
  first.  A \<open>projectId\<close> that resolves to no project is no error: the draft is returned
  without a project title.
\<close>

theorem draft_lookup_failures:
  "(fromUserId inp \<noteq> [] \<and> toUserId inp \<noteq> [] \<and> findUser e (fromUserId inp) = None \<longrightarrow>
      draftIntroMessage e inp = Inl (SenderNotFound (fromUserId inp)))
   \<and> (fromUserId inp \<noteq> [] \<and> toUserId inp \<noteq> [] \<and> findUser e (fromUserId inp) \<noteq> None
       \<and> findUser e (toUserId inp) = None \<longrightarrow>
      draftIntroMessage e inp = Inl (RecipientNotFound (toUserId inp)))
   \<and> (fromUserId inp \<noteq> [] \<and> toUserId inp \<noteq> [] \<and> findUser e (fromUserId inp) \<noteq> None
       \<and> findUser e (toUserId inp) \<noteq> None \<and> projectId inp = Some pid \<and> findProject e pid = Inr None \<longrightarrow>
      (\<exists>d. draftIntroMessage e inp = Inr d \<and> recipientId d = toUserId inp \<and> projectTitle d = None))"
  using draft_sender_missing [of inp e] draft_recipient_missing [of inp e]
    draft_project_missing [of inp e pid]
  by blast

theorem draft_lookup_failures_witness:
  "draftIntroMessage demo_env
      \<lparr>fromUserId = ''u7'', toUserId = ''u2'', projectId = None, customNote = None\<rparr>
     = Inl (SenderNotFound ''u7'')
   \<and> draftIntroMessage demo_env
      \<lparr>fromUserId = ''u1'', toUserId = ''u9'', projectId = None, customNote = None\<rparr>
     = Inl (RecipientNotFound ''u9'')
   \<and> projectTitle (projr (draftIntroMessage demo_env
      \<lparr>fromUserId = ''u1'', toUserId = ''u2'', projectId = Some (JStr ''p404''), customNote = None\<rparr>)) = None"
proof -
  have u: "findUser demo_env ''u7'' = None" "findUser demo_env ''u9'' = None"
    "findUser demo_env ''u1'' \<noteq> None" "findUser demo_env ''u2'' \<noteq> None"
    "findProject demo_env (JStr ''p404'') = Inr None"
    by (simp_all add: demo_env_def)
  from draft_lookup_failures [where e = demo_env and inp =
      "\<lparr>fromUserId = ''u7'', toUserId = ''u2'', projectId = None, customNote = None\<rparr>"] u
  have a: "draftIntroMessage demo_env
      \<lparr>fromUserId = ''u7'', toUserId = ''u2'', projectId = None, customNote = None\<rparr>
     = Inl (SenderNotFound ''u7'')" by simp
  from draft_lookup_failures [where e = demo_env and inp =
      "\<lparr>fromUserId = ''u1'', toUserId = ''u9'', projectId = None, customNote = None\<rparr>"] u
  have b: "draftIntroMessage demo_env
      \<lparr>fromUserId = ''u1'', toUserId = ''u9'', projectId = None, customNote = None\<rparr>
     = Inl (RecipientNotFound ''u9'')" by simp
  from draft_lookup_failures [where e = demo_env and pid = "JStr ''p404''" and inp =
      "\<lparr>fromUserId = ''u1'', toUserId = ''u2'', projectId = Some (JStr ''p404''), customNote = None\<rparr>"] u
  obtain d where "draftIntroMessage demo_env
      \<lparr>fromUserId = ''u1'', toUserId = ''u2'', projectId = Some (JStr ''p404''), customNote = None\<rparr> = Inr d"
    "projectTitle d = None" by auto
  then have c: "projectTitle (projr (draftIntroMessage demo_env
      \<lparr>fromUserId = ''u1'', toUserId = ''u2'', projectId = Some (JStr ''p404''), customNote = None\<rparr>)) = None"
    by simp
  from a b c show ?thesis by simp
qed

text \<open>
  C2: neither agent executes more than 2 tool calls in one invocation.  In the bounded
  agent \<open>executeToolCall\<close> tests the cap before it dispatches: at 2 calls it raises the error
  and leaves the state as it is; an invocation counts at most 2 calls and logs no more
  calls than it counts.  In the agent driven by the language model an invocation counts at
  most 2 calls and calls \<open>dispatchTool\<close> at most twice, whatever the model asks for and
  whatever the types of the arguments it sends; a requested function call that meets the
  cap is answered with the cap message and not dispatched.
\<close>

theorem tool_call_cap:
  "out_toolCallsMade (runBoundedAgent e inp) \<le> 2
   \<and> length (out_toolCallLog (runBoundedAgent e inp)) \<le> out_toolCallsMade (runBoundedAgent e inp)
   \<and> (2 \<le> b_toolCallsMade st \<longrightarrow> executeToolCall e ti st = (Inl CapExceeded, st))
   \<and> (b_toolCallsMade st \<le> 2 \<and> length (b_toolCallLog st) \<le> b_toolCallsMade st \<longrightarrow>
        b_toolCallsMade (snd (executeToolCall e ti st)) \<le> 2
        \<and> length (b_toolCallLog (snd (executeToolCall e ti st)))
            \<le> b_toolCallsMade (snd (executeToolCall e ti st)))
   \<and> resp_toolCallsMade (fst (openai_run e l req)) \<le> 2
   \<and> length (o_dispatched (snd (openai_run e l req))) \<le> 2
   \<and> (runOpenAIAgent e l req = Inr resp \<longrightarrow> resp_toolCallsMade resp \<le> 2)
   \<and> (tc_is_function tc \<and> 2 \<le> o_toolCallsMade ost \<longrightarrow>
        process_tool_calls e req (tc # tcs) ost
          = (None, push_message (ToolMsg (tc_id tc) CapReached) ost))"
proof -
  have a: "out_toolCallsMade (runBoundedAgent e inp) \<le> 2"
    "length (out_toolCallLog (runBoundedAgent e inp)) \<le> out_toolCallsMade (runBoundedAgent e inp)"
    using bounded_agent_bounds [of e inp] by (simp_all add: MAX_TOOL_CALLS_def)
  have b: "2 \<le> b_toolCallsMade st \<longrightarrow> executeToolCall e ti st = (Inl CapExceeded, st)"
    using execute_capped [of st e ti] by (simp add: MAX_TOOL_CALLS_def)
  have c: "b_toolCallsMade st \<le> 2 \<and> length (b_toolCallLog st) \<le> b_toolCallsMade st \<longrightarrow>
        b_toolCallsMade (snd (executeToolCall e ti st)) \<le> 2
        \<and> length (b_toolCallLog (snd (executeToolCall e ti st)))
            \<le> b_toolCallsMade (snd (executeToolCall e ti st))"
    using execute_bounds [of e ti st "fst (executeToolCall e ti st)" "snd (executeToolCall e ti st)"]
    by (simp add: MAX_TOOL_CALLS_def)
  have d: "resp_toolCallsMade (fst (openai_run e l req)) \<le> 2"
    "length (o_dispatched (snd (openai_run e l req))) \<le> 2"
    using run_bounds [of e l req] by (simp_all add: MAX_TOOL_CALLS_def)
  have f: "runOpenAIAgent e l req = Inr resp \<longrightarrow> resp_toolCallsMade resp \<le> 2"
    using d(1) by (auto simp: runOpenAIAgent_def split: if_splits)
  have g: "tc_is_function tc \<and> 2 \<le> o_toolCallsMade ost \<longrightarrow>
        process_tool_calls e req (tc # tcs) ost
          = (None, push_message (ToolMsg (tc_id tc) CapReached) ost)"
    by (simp add: MAX_TOOL_CALLS_def)
  from a b c d f g show ?thesis by blast
qed

theorem tool_call_cap_witness:
  "b_toolCallsMade after_two_calls = 2
   \<and> executeToolCall demo_env demo_draft_input after_two_calls = (Inl CapExceeded, after_two_calls)
   \<and> out_toolCallsMade (runBoundedAgent demo_env approve_input) = 1
   \<and> length (out_toolCallLog (runBoundedAgent demo_env approve_input)) = 1
   \<and> resp_toolCallsMade (fst (openai_run demo_env greedy_llm demo_req)) = 2
   \<and> length (o_dispatched (snd (openai_run demo_env greedy_llm demo_req))) = 2
   \<and> resp_toolCallsMade (fst (openai_run demo_env sloppy_llm demo_req)) = 2
   \<and> length (o_dispatched (snd (openai_run demo_env sloppy_llm demo_req))) = 2
   \<and> runOpenAIAgent demo_env greedy_llm demo_req = Inr (fst (openai_run demo_env greedy_llm demo_req))
   \<and> process_tool_calls demo_env demo_req [draft_call ''u9'']
        (snd (openai_run demo_env greedy_llm demo_req))
       = (None, push_message (ToolMsg ''call_2'' CapReached)
                  (snd (openai_run demo_env greedy_llm demo_req)))"
proof -
  have calls: "o_toolCallsMade (snd (openai_run demo_env greedy_llm demo_req)) = 2"
    using run_bounds [of demo_env greedy_llm demo_req] greedy_run by simp
  have fn: "tc_is_function (draft_call ''u9'')" "tc_id (draft_call ''u9'') = ''call_2''"
    by (simp_all add: draft_call_def)
  from tool_call_cap [where e = demo_env and st = after_two_calls and ti = demo_draft_input
      and inp = approve_input and l = greedy_llm and req = demo_req
      and resp = "fst (openai_run demo_env greedy_llm demo_req)"
      and tc = "draft_call ''u9''" and tcs = "[]"
      and ost = "snd (openai_run demo_env greedy_llm demo_req)"]
    after_two_calls_count calls fn
  have "executeToolCall demo_env demo_draft_input after_two_calls = (Inl CapExceeded, after_two_calls)"
    and "process_tool_calls demo_env demo_req [draft_call ''u9'']
        (snd (openai_run demo_env greedy_llm demo_req))
       = (None, push_message (ToolMsg ''call_2'' CapReached)
                  (snd (openai_run demo_env greedy_llm demo_req)))"
    by simp_all
  then show ?thesis
    using after_two_calls_count greedy_run sloppy_run demo_has_key by (simp add: approve_run)
qed




end
